theory Spec2Isabelle
  imports Complex_Main "HOL-Library.AList"
begin

section \<open>Training and evaluation dynamics: the per-epoch record files\<close>

text \<open>
  The module \<^verbatim>\<open>cartography/selection/selection_utils.py\<close> writes, for every epoch, a
  line-delimited file of records \<^verbatim>\<open>{"guid": .., "logits_epoch_N": [..], "gold": ..}\<close> and
  merges such files back into one history per instance. The embedding keeps the
  source's control flow and makes the file system an explicit value.

  Modelling decisions, all of them visible in the definitions below:
  \<^item> The readers are polymorphic in the type \<open>'f\<close> of the score values, which they
    never inspect. The writers print the scores, so that there they are numbers: a
    floating-point value is modelled by the real number it denotes.
  \<^item> A file holds the list of the records that its lines denote (what \<^verbatim>\<open>json.loads\<close>
    returns for each line). What pandas prints into a file and what it reads back from
    one is modelled in the section on the writers, from the documentation of pandas.
  \<^item> A directory is an association list from names to nodes, in listing order.
  \<^item> Every exception of the source is a value of type \<open>error\<close>.
\<close>

subsection \<open>Data\<close>

datatype error =
    AssertionError
  | KeyError
  | TypeError
  | ValueError
  | FileNotFoundError
  | NotADirectoryError
  | IsADirectoryError

text \<open>Instance identifiers are integers or strings; they are the keys of the merged history.\<close>

datatype instance_key = IntId int | StrId string

text \<open>The values a record field holds: an integer, a string or a score vector.\<close>

datatype 'f jvalue = JInt int | JStr string | JVec "'f list"

type_synonym 'f row = "(string \<times> 'f jvalue) list"

datatype 'f node = File "'f row list" | Dir "(string \<times> 'f node) list"

type_synonym 'f directory = "(string \<times> 'f node) list"

text \<open>The value \<^verbatim>\<open>{"gold": .., "logits": [..]}\<close> stored per instance by the readers.\<close>

record 'f dyn_entry =
  gold :: "'f jvalue"
  logits :: "'f jvalue list"

text \<open>A Python dictionary keeps insertion order: an association list updated in place.\<close>

type_synonym 'f dynamics = "(instance_key \<times> 'f dyn_entry) list"

subsection \<open>Formatting of epoch numbers and names\<close>

definition digit :: "nat \<Rightarrow> char" where
  "digit d = ''0123456789'' ! d"

fun str_nat :: "nat \<Rightarrow> string" where
  "str_nat n = (if n < 10 then [digit n] else str_nat (n div 10) @ [digit (n mod 10)])"

declare str_nat.simps [simp del]

text \<open>Python's \<^verbatim>\<open>str\<close> on an integer, as the f-strings of the source apply it.\<close>

definition str_int :: "int \<Rightarrow> string" where
  "str_int i = (if i < 0 then ''-'' @ str_nat (nat (- i)) else str_nat (nat i))"

definition logits_column :: "int \<Rightarrow> string" where
  "logits_column epoch = ''logits_epoch_'' @ str_int epoch"

definition epoch_file_name :: "int \<Rightarrow> string" where
  "epoch_file_name epoch = ''dynamics_epoch_'' @ str_int epoch @ ''.jsonl''"

subsection \<open>The writers\<close>

fun of_key :: "instance_key \<Rightarrow> 'f jvalue" where
  "of_key (IntId i) = JInt i"
| "of_key (StrId s) = JStr s"

text \<open>
  \<^verbatim>\<open>pd.DataFrame({"guid": ids, col: logits, "gold": golds})\<close>: one row per position;
  columns of different lengths raise \<^verbatim>\<open>ValueError\<close>.
\<close>

definition data_frame ::
  "string \<Rightarrow> instance_key list \<Rightarrow> 'f list list \<Rightarrow> int list \<Rightarrow> error + 'f row list" where
  "data_frame col ids lgs gds =
     (if length ids = length lgs \<and> length lgs = length gds
      then Inr (map (\<lambda>(i, l, g). [(''guid'', of_key i), (col, JVec l), (''gold'', JInt g)])
                  (zip ids (zip lgs gds)))
      else Inl ValueError)"

text \<open>
  The two writers, and the two readers, are the same code up to the name of the
  sub-directory: \<open>kind\<close> selects the variant.
\<close>

datatype kind = Training | Eval

fun subdir :: "kind \<Rightarrow> string" where
  "subdir Training = ''training_dynamics''"
| "subdir Eval = ''eval_dynamics''"

subsection \<open>What pandas writes, and what it reads back\<close>

text \<open>
  The writers store and reload their frames through pandas, which is not part of the
  source. The definitions of this subsection are modelled from the documentation of
  pandas, for the default settings that the source uses:
  \<^item> \<^verbatim>\<open>DataFrame.to_json\<close> prints a floating-point value with 10 decimal places
    (\<^verbatim>\<open>double_precision=10\<close>); integers, strings and the structure of a record are printed
    as they are;
  \<^item> \<^verbatim>\<open>pandas.read_json\<close> infers the types of the columns (\<^verbatim>\<open>dtype=True\<close>): a column whose
    cells all read as numbers comes back as numbers, also when the file holds them as
    strings; a column with a cell that does not read as a number comes back as it is;
  \<^item> \<^verbatim>\<open>pandas.concat\<close> aligns the columns of its frames and fills the cells that a frame
    lacks; for frames with the same columns the result is the rows of the first frame
    followed by the rows of the second.

  A frame is the list of its rows. The definitions cover the frames of the record schema
  of this module (the columns \<^verbatim>\<open>guid\<close>, \<^verbatim>\<open>logits_epoch_N\<close>, \<^verbatim>\<open>gold\<close>). Where pandas would
  produce what a record of this theory cannot hold (an empty cell, an identifier that is
  a number with a fractional part), or where the documentation does not settle what is
  read, \<open>read_json\<close> is \<open>None\<close>, and so is the result of the writer: nothing is
  stated about such a call.
\<close>

definition to_json_float :: "real \<Rightarrow> real" where
  "to_json_float x = of_int (round (x * 10 ^ 10)) / 10 ^ 10"

fun to_json_value :: "real jvalue \<Rightarrow> real jvalue" where
  "to_json_value (JInt i) = JInt i"
| "to_json_value (JStr s) = JStr s"
| "to_json_value (JVec v) = JVec (map to_json_float v)"

text \<open>\<^verbatim>\<open>df.to_json(file, orient="records", lines=True)\<close>: the records that the lines written denote.\<close>

definition to_json :: "real row list \<Rightarrow> real row list" where
  "to_json df = map (map (\<lambda>(c, v). (c, to_json_value v))) df"

text \<open>
  The identifier of a line that is a record of the schema, with the score column \<open>col\<close>:
  an integer or a string for \<^verbatim>\<open>guid\<close>, a list of numbers for the scores, an integer for
  \<^verbatim>\<open>gold\<close>.
\<close>

fun record_guid :: "string \<Rightarrow> real row \<Rightarrow> real jvalue option" where
  "record_guid col [(c1, JInt i), (c2, JVec v), (c3, JInt y)] =
     (if c1 = ''guid'' \<and> c2 = col \<and> c3 = ''gold'' then Some (JInt i) else None)"
| "record_guid col [(c1, JStr s), (c2, JVec v), (c3, JInt y)] =
     (if c1 = ''guid'' \<and> c2 = col \<and> c3 = ''gold'' then Some (JStr s) else None)"
| "record_guid col r = None"

text \<open>
  A letter that occurs in no text that reads as a number (the letters of \<^verbatim>\<open>inf\<close>,
  \<^verbatim>\<open>infinity\<close>, \<^verbatim>\<open>nan\<close> and of an exponent do): a string with such a letter does not read as
  a number.
\<close>

definition non_numeric_char :: "char \<Rightarrow> bool" where
  "non_numeric_char c \<longleftrightarrow> c \<in> set ''bcdghjklmopqrsuvwxzBCDGHJKLMOPQRSUVWXZ''"

fun non_numeric :: "real jvalue \<Rightarrow> bool" where
  "non_numeric (JInt i) = False"
| "non_numeric (JStr s) = list_ex non_numeric_char s"
| "non_numeric (JVec v) = True"

fun is_integer :: "real jvalue \<Rightarrow> bool" where
  "is_integer (JInt i) = True"
| "is_integer (JStr s) = False"
| "is_integer (JVec v) = False"

text \<open>A string of decimal digits, and the number it reads as.\<close>

definition digit_string :: "string \<Rightarrow> bool" where
  "digit_string s \<longleftrightarrow> s \<noteq> [] \<and> list_all (\<lambda>c. c \<in> set ''0123456789'') s"

text \<open>The value of a digit is its position in the sequence of the digits.\<close>

definition digit_value :: "char \<Rightarrow> nat" where
  "digit_value c = length (takeWhile (\<lambda>d. d \<noteq> c) ''0123456789'')"

definition nat_of_digits :: "string \<Rightarrow> nat" where
  "nat_of_digits s = foldl (\<lambda>n c. 10 * n + digit_value c) 0 s"

text \<open>
  The integer that a cell reads as, in the cases where it plainly reads as one: an
  integer, or a string of digits, small enough to pass through a double unchanged.
\<close>

fun as_integer :: "real jvalue \<Rightarrow> int option" where
  "as_integer (JInt i) = (if \<bar>i\<bar> < 2 ^ 53 then Some i else None)"
| "as_integer (JStr s) =
     (if digit_string s \<and> int (nat_of_digits s) < 2 ^ 53 then Some (int (nat_of_digits s))
      else None)"
| "as_integer (JVec v) = None"

text \<open>
  The type inference of \<^verbatim>\<open>read_json\<close> on a column of identifiers. A column of integers is
  kept. Otherwise pandas tries to convert the whole column to numbers: the column is kept
  when a cell plainly does not read as a number, and becomes a column of integers when
  every cell plainly reads as one. The other columns are not covered.
\<close>

definition infer_column :: "real jvalue list \<Rightarrow> real jvalue list option" where
  "infer_column cells =
     (if list_all is_integer cells then Some cells
      else if list_ex non_numeric cells then Some cells
      else if list_all (\<lambda>c. as_integer c \<noteq> None) cells
      then Some (map (\<lambda>c. case as_integer c of Some i \<Rightarrow> JInt i | None \<Rightarrow> c) cells)
      else None)"

text \<open>
  \<^verbatim>\<open>pd.read_json(file, orient="records", lines=True)\<close> on a file of records of the schema:
  the frame of its lines, with the column of identifiers as the inference leaves it. The
  score lists and the integer gold labels are read as they are.
\<close>

definition read_json :: "string \<Rightarrow> real row list \<Rightarrow> real row list option" where
  "read_json col lines =
     (if lines = [] \<or> \<not> list_all (\<lambda>r. record_guid col r \<noteq> None) lines then None
      else (case infer_column (List.map_filter (record_guid col) lines) of
              None \<Rightarrow> None
            | Some guids \<Rightarrow> Some (map2 (\<lambda>g r. AList.update ''guid'' g r) guids lines)))"

text \<open>\<^verbatim>\<open>pd.concat((f, td_df), axis=0)\<close>, for two frames with the same columns.\<close>

definition concat_frames :: "real row list \<Rightarrow> real row list \<Rightarrow> real row list" where
  "concat_frames f td_df = f @ td_df"

subsection \<open>The body of the writers\<close>

text \<open>
  The common body of \<^verbatim>\<open>log_training_dynamics\<close> and \<^verbatim>\<open>log_eval_dynamics\<close>. The state is the
  listing of \<^verbatim>\<open>output_dir\<close>; the result is the listing after the call, or the exception
  raised, or \<open>None\<close> where \<open>read_json\<close> does not cover the file that the call reloads.
\<close>

definition log_dynamics ::
  "kind \<Rightarrow> real directory \<Rightarrow> int \<Rightarrow> instance_key list \<Rightarrow> real list list \<Rightarrow> int list
     \<Rightarrow> (error + real directory) option" where
  "log_dynamics k output_dir epoch ids lgs gds =
     (case data_frame (logits_column epoch) ids lgs gds of
        Inl e \<Rightarrow> Some (Inl e)
      | Inr td_df \<Rightarrow>
          let fs = (if map_of output_dir (subdir k) = None
                    then AList.update (subdir k) (Dir []) output_dir else output_dir)
          in (case map_of fs (subdir k) of
                None \<Rightarrow> Some (Inl FileNotFoundError)
              | Some (File _) \<Rightarrow> Some (Inl NotADirectoryError)
              | Some (Dir logging_dir) \<Rightarrow>
                  (case map_of logging_dir (epoch_file_name epoch) of
                     None \<Rightarrow>
                       Some (Inr (AList.update (subdir k)
                         (Dir (AList.update (epoch_file_name epoch) (File (to_json td_df))
                                logging_dir)) fs))
                   | Some (Dir _) \<Rightarrow> Some (Inl IsADirectoryError)
                   | Some (File lines) \<Rightarrow>
                       (case read_json (logits_column epoch) lines of
                          None \<Rightarrow> None
                        | Some f \<Rightarrow>
                            Some (Inr (AList.update (subdir k)
                              (Dir (AList.update (epoch_file_name epoch)
                                     (File (to_json (concat_frames f td_df))) logging_dir))
                              fs))))))"


definition log_eval_dynamics ::
  "real directory \<Rightarrow> int \<Rightarrow> instance_key list \<Rightarrow> real list list \<Rightarrow> int list
     \<Rightarrow> (error + real directory) option" where
  "log_eval_dynamics = log_dynamics Eval"

subsection \<open>The readers\<close>

text \<open>\<^verbatim>\<open>record[field]\<close>\<close>

definition getitem :: "'f row \<Rightarrow> string \<Rightarrow> error + 'f jvalue" where
  "getitem r field = (case map_of r field of None \<Rightarrow> Inl KeyError | Some v \<Rightarrow> Inr v)"

text \<open>\<^verbatim>\<open>v[:-1]\<close>: an integer is not subscriptable.\<close>

fun drop_last :: "'f jvalue \<Rightarrow> error + 'f jvalue" where
  "drop_last (JInt i) = Inl TypeError"
| "drop_last (JStr s) = Inr (JStr (butlast s))"
| "drop_last (JVec v) = Inr (JVec (butlast v))"

text \<open>The membership test \<^verbatim>\<open>guid not in train_dynamics\<close> hashes its key: a list is unhashable.\<close>

fun hashable :: "'f jvalue \<Rightarrow> error + instance_key" where
  "hashable (JInt i) = Inr (IntId i)"
| "hashable (JStr s) = Inr (StrId s)"
| "hashable (JVec v) = Inl TypeError"

text \<open>The key of a record: line 92 of the source, and the hashing of line 93.\<close>

definition row_key :: "bool \<Rightarrow> string \<Rightarrow> 'f row \<Rightarrow> error + instance_key" where
  "row_key strip_last id_field r =
     (case getitem r id_field of
        Inl e \<Rightarrow> Inl e
      | Inr v \<Rightarrow>
          (case (if \<not> strip_last then Inr v else drop_last v) of
             Inl e \<Rightarrow> Inl e
           | Inr g \<Rightarrow> hashable g))"

definition append_logits :: "instance_key \<Rightarrow> 'f jvalue \<Rightarrow> 'f dynamics \<Rightarrow> 'f dynamics" where
  "append_logits guid sv dyn = AList.map_entry guid (\<lambda>e. e\<lparr>logits := logits e @ [sv]\<rparr>) dyn"

text \<open>The body of the loop over the lines of one epoch file (lines 91 to 96).\<close>

definition merge_record ::
  "nat \<Rightarrow> bool \<Rightarrow> string \<Rightarrow> 'f dynamics \<Rightarrow> 'f row \<Rightarrow> error + 'f dynamics" where
  "merge_record epoch_num strip_last id_field dyn r =
     (case row_key strip_last id_field r of
        Inl e \<Rightarrow> Inl e
      | Inr guid \<Rightarrow>
          (case (if map_of dyn guid = None
                 then (if epoch_num \<noteq> 0 then Inl AssertionError
                       else (case getitem r ''gold'' of
                               Inl e \<Rightarrow> Inl e
                             | Inr gd \<Rightarrow> Inr (AList.update guid \<lparr>gold = gd, logits = []\<rparr> dyn)))
                 else Inr dyn) of
             Inl e \<Rightarrow> Inl e
           | Inr dyn1 \<Rightarrow>
               (case getitem r (logits_column (int epoch_num)) of
                  Inl e \<Rightarrow> Inl e
                | Inr sv \<Rightarrow> Inr (append_logits guid sv dyn1))))"

fun read_lines ::
  "nat \<Rightarrow> bool \<Rightarrow> string \<Rightarrow> 'f row list \<Rightarrow> 'f dynamics \<Rightarrow> error + 'f dynamics" where
  "read_lines epoch_num strip_last id_field [] dyn = Inr dyn"
| "read_lines epoch_num strip_last id_field (r # rs) dyn =
     (case merge_record epoch_num strip_last id_field dyn r of
        Inl e \<Rightarrow> Inl e
      | Inr dyn' \<Rightarrow> read_lines epoch_num strip_last id_field rs dyn')"

text \<open>
  The loop over \<^verbatim>\<open>range(num_epochs)\<close>: the file must exist (the assertion of line 87), and
  opening a directory raises.
\<close>

fun read_epochs ::
  "'f directory \<Rightarrow> bool \<Rightarrow> string \<Rightarrow> nat list \<Rightarrow> 'f dynamics \<Rightarrow> error + 'f dynamics" where
  "read_epochs td strip_last id_field [] dyn = Inr dyn"
| "read_epochs td strip_last id_field (epoch_num # rest) dyn =
     (case map_of td (epoch_file_name (int epoch_num)) of
        None \<Rightarrow> Inl AssertionError
      | Some (Dir _) \<Rightarrow> Inl IsADirectoryError
      | Some (File rows) \<Rightarrow>
          (case read_lines epoch_num strip_last id_field rows dyn of
             Inl e \<Rightarrow> Inl e
           | Inr dyn' \<Rightarrow> read_epochs td strip_last id_field rest dyn'))"

text \<open>\<^verbatim>\<open>os.path.isfile(os.path.join(td_dir, f))\<close>\<close>

definition isfile :: "'f directory \<Rightarrow> string \<Rightarrow> bool" where
  "isfile td f = (case map_of td f of Some (File _) \<Rightarrow> True | _ \<Rightarrow> False)"

text \<open>\<^verbatim>\<open>len([f for f in os.listdir(td_dir) if os.path.isfile(os.path.join(td_dir, f))])\<close>\<close>

definition count_files :: "'f directory \<Rightarrow> int" where
  "count_files td = int (length (filter (isfile td) (map fst td)))"

text \<open>
  \<^verbatim>\<open>if burn_out: num_epochs = burn_out\<close>: the test is Python's truth value, so that
  \<^verbatim>\<open>None\<close> and \<^verbatim>\<open>0\<close> both keep the count of files.
\<close>

definition num_epochs :: "'f directory \<Rightarrow> int option \<Rightarrow> int" where
  "num_epochs td burn_out =
     (case burn_out of
        None \<Rightarrow> count_files td
      | Some b \<Rightarrow> if b \<noteq> 0 then b else count_files td)"

text \<open>
  The common body of \<^verbatim>\<open>read_training_dynamics\<close> and \<^verbatim>\<open>read_eval_dynamics\<close>.
  \<^verbatim>\<open>range(n)\<close> is empty for a negative \<^verbatim>\<open>n\<close>.
\<close>

definition read_dynamics ::
  "kind \<Rightarrow> 'f directory \<Rightarrow> bool \<Rightarrow> string \<Rightarrow> int option \<Rightarrow> error + 'f dynamics" where
  "read_dynamics k model_dir strip_last id_field burn_out =
     (case map_of model_dir (subdir k) of
        None \<Rightarrow> Inl FileNotFoundError
      | Some (File _) \<Rightarrow> Inl NotADirectoryError
      | Some (Dir td_dir) \<Rightarrow>
          read_epochs td_dir strip_last id_field [0..<nat (num_epochs td_dir burn_out)] [])"

definition read_training_dynamics ::
  "'f directory \<Rightarrow> bool \<Rightarrow> string \<Rightarrow> int option \<Rightarrow> error + 'f dynamics" where
  "read_training_dynamics = read_dynamics Training"

definition read_eval_dynamics ::
  "'f directory \<Rightarrow> bool \<Rightarrow> string \<Rightarrow> int option \<Rightarrow> error + 'f dynamics" where
  "read_eval_dynamics = read_dynamics Eval"

subsection \<open>Vocabulary of the statements\<close>

text \<open>The records of the file of epoch \<open>n\<close> in a sub-directory (none when there is no such file).\<close>

definition file_rows :: "'f directory \<Rightarrow> nat \<Rightarrow> 'f row list" where
  "file_rows td n =
     (case map_of td (epoch_file_name (int n)) of Some (File rows) \<Rightarrow> rows | _ \<Rightarrow> [])"

text \<open>The records of a file that the reader merges under a given key, in file order.\<close>

definition rows_with_key :: "bool \<Rightarrow> string \<Rightarrow> instance_key \<Rightarrow> 'f row list \<Rightarrow> 'f row list" where
  "rows_with_key strip_last id_field key rows =
     filter (\<lambda>r. row_key strip_last id_field r = Inr key) rows"

text \<open>The score vectors these records hold for epoch \<open>n\<close>.\<close>

definition scores_for ::
  "nat \<Rightarrow> bool \<Rightarrow> string \<Rightarrow> instance_key \<Rightarrow> 'f row list \<Rightarrow> 'f jvalue list" where
  "scores_for n strip_last id_field key rows =
     List.map_filter (\<lambda>r. map_of r (logits_column (int n)))
       (rows_with_key strip_last id_field key rows)"

text \<open>The history a merged mapping holds for a key (empty when the key is absent).\<close>

definition logits_of :: "'f dynamics \<Rightarrow> instance_key \<Rightarrow> 'f jvalue list" where
  "logits_of dyn key = (case map_of dyn key of None \<Rightarrow> [] | Some e \<Rightarrow> logits e)"

text \<open>
  A record that the loop body can process at epoch \<open>n\<close> without a \<^verbatim>\<open>KeyError\<close> or a
  \<^verbatim>\<open>TypeError\<close>: its key can be computed, it has the score column of the epoch and, at
  epoch 0, a gold field.
\<close>

definition readable_row :: "nat \<Rightarrow> bool \<Rightarrow> string \<Rightarrow> 'f row \<Rightarrow> bool" where
  "readable_row n strip_last id_field r \<longleftrightarrow>
     \<not> isl (row_key strip_last id_field r) \<and>
     map_of r (logits_column (int n)) \<noteq> None \<and>
     (n = 0 \<longrightarrow> map_of r ''gold'' \<noteq> None)"

text \<open>The entry of epoch \<open>n\<close>, when there is one, is a regular file of such records.\<close>

definition readable_file :: "'f directory \<Rightarrow> bool \<Rightarrow> string \<Rightarrow> nat \<Rightarrow> bool" where
  "readable_file td strip_last id_field n =
     (case map_of td (epoch_file_name (int n)) of
        None \<Rightarrow> True
      | Some (Dir _) \<Rightarrow> False
      | Some (File rows) \<Rightarrow> list_all (readable_row n strip_last id_field) rows)"

text \<open>
  The sub-directory in which the gold field of every record of every file other than the
  file of epoch 0 is set to \<open>g\<close>.
\<close>

definition overwrite_later_gold :: "'f jvalue \<Rightarrow> 'f directory \<Rightarrow> 'f directory" where
  "overwrite_later_gold g td =
     map (\<lambda>(name, nd).
            (name, if name = epoch_file_name 0 then nd
                   else (case nd of
                           File rows \<Rightarrow> File (map (AList.update ''gold'' g) rows)
                         | Dir d \<Rightarrow> Dir d))) td"

subsection \<open>Example directories\<close>

text \<open>
  The example of the specification: two instances, written for epochs 0 and 1. The
  values are the contents of a \<^verbatim>\<open>training_dynamics\<close> or \<^verbatim>\<open>eval_dynamics\<close> sub-directory.
\<close>

definition spec_example_td :: "real directory" where
  "spec_example_td =
     [(''dynamics_epoch_0.jsonl'', File
         [[(''guid'', JInt 1), (''logits_epoch_0'', JVec [0.1, 0.9]), (''gold'', JInt 1)],
          [(''guid'', JInt 2), (''logits_epoch_0'', JVec [0.8, 0.2]), (''gold'', JInt 0)]]),
      (''dynamics_epoch_1.jsonl'', File
         [[(''guid'', JInt 1), (''logits_epoch_1'', JVec [0.2, 0.8]), (''gold'', JInt 1)],
          [(''guid'', JInt 2), (''logits_epoch_1'', JVec [0.7, 0.3]), (''gold'', JInt 0)]])]"

text \<open>The same directory before epoch 1 was written.\<close>

definition epoch_0_only_td :: "real directory" where
  "epoch_0_only_td =
     [(''dynamics_epoch_0.jsonl'', File
         [[(''guid'', JInt 1), (''logits_epoch_0'', JVec [0.1, 0.9]), (''gold'', JInt 1)],
          [(''guid'', JInt 2), (''logits_epoch_0'', JVec [0.8, 0.2]), (''gold'', JInt 0)]])]"

text \<open>Instance 2 is written from epoch 1 on only.\<close>

definition late_instance_td :: "real directory" where
  "late_instance_td =
     [(''dynamics_epoch_0.jsonl'', File
         [[(''guid'', JInt 1), (''logits_epoch_0'', JVec [0.1, 0.9]), (''gold'', JInt 1)]]),
      (''dynamics_epoch_1.jsonl'', File
         [[(''guid'', JInt 1), (''logits_epoch_1'', JVec [0.2, 0.8]), (''gold'', JInt 1)],
          [(''guid'', JInt 2), (''logits_epoch_1'', JVec [0.7, 0.3]), (''gold'', JInt 0)]])]"

text \<open>One epoch file in which instance 1 has two records.\<close>

definition duplicate_td :: "real directory" where
  "duplicate_td =
     [(''dynamics_epoch_0.jsonl'', File
         [[(''guid'', JInt 1), (''logits_epoch_0'', JVec [0.1, 0.9]), (''gold'', JInt 1)],
          [(''guid'', JInt 1), (''logits_epoch_0'', JVec [0.3, 0.7]), (''gold'', JInt 1)]])]"

text \<open>An identifier with a one-character suffix, to be read with the strip option.\<close>

definition suffixed_ids_td :: "real directory" where
  "suffixed_ids_td =
     [(''dynamics_epoch_0.jsonl'', File
         [[(''guid'', JStr ''abc1''), (''logits_epoch_0'', JVec [0.1, 0.9]), (''gold'', JInt 1)]])]"

text \<open>Instance 1 is recorded with gold label 1 at epoch 0 and 0 at epoch 1.\<close>

definition gold_changes_td :: "real directory" where
  "gold_changes_td =
     [(''dynamics_epoch_0.jsonl'', File
         [[(''guid'', JInt 1), (''logits_epoch_0'', JVec [0.1, 0.9]), (''gold'', JInt 1)]]),
      (''dynamics_epoch_1.jsonl'', File
         [[(''guid'', JInt 1), (''logits_epoch_1'', JVec [0.2, 0.8]), (''gold'', JInt 0)]])]"

section \<open>File names determine the epoch\<close>

lemma digit_inj: "d < 10 \<Longrightarrow> d' < 10 \<Longrightarrow> digit d = digit d' \<Longrightarrow> d = d'"
proof -
  have cases: "\<And>x::nat. x < 10 \<Longrightarrow> x \<in> {0,1,2,3,4,5,6,7,8,9}" by auto
  assume "d < 10" "d' < 10" "digit d = digit d'"
  with cases [of d] cases [of d'] show ?thesis
    by (auto simp: digit_def)
qed

lemma length_str_nat: "length (str_nat n) = 1 \<longleftrightarrow> n < 10"
proof (cases "n < 10")
  case True then show ?thesis by (simp add: str_nat.simps)
next
  case False
  have "str_nat (n div 10) \<noteq> []" by (subst str_nat.simps) simp
  with False show ?thesis by (subst str_nat.simps) (simp)
qed

lemma str_nat_inj: "str_nat n = str_nat m \<Longrightarrow> n = m"
proof (induction n arbitrary: m rule: less_induct)
  case (less n)
  show ?case
  proof (cases "n < 10")
    case True
    with less.prems length_str_nat [of m] length_str_nat [of n] have m: "m < 10" by simp
    with True less.prems show ?thesis by (simp add: str_nat.simps digit_inj)
  next
    case False
    with less.prems length_str_nat [of m] length_str_nat [of n] have m: "\<not> m < 10" by simp
    from False m less.prems have
      "str_nat (n div 10) @ [digit (n mod 10)] = str_nat (m div 10) @ [digit (m mod 10)]"
      by (simp add: str_nat.simps [of n] str_nat.simps [of m])
    then have a: "str_nat (n div 10) = str_nat (m div 10)" and b: "digit (n mod 10) = digit (m mod 10)"
      by simp_all
    from False have "n div 10 < n" by simp
    from less.IH [OF this a] have "n div 10 = m div 10" .
    moreover from b have "n mod 10 = m mod 10" by (intro digit_inj) simp_all
    ultimately show ?thesis by (metis div_mult_mod_eq)
  qed
qed

lemma epoch_file_name_inj: "epoch_file_name (int n) = epoch_file_name (int m) \<Longrightarrow> n = m"
  by (simp add: epoch_file_name_def str_int_def str_nat_inj)

section \<open>Properties of the loop body and of the loops\<close>

lemma merge_record_Inr:
  assumes "merge_record n s f dyn r = Inr dyn'"
  shows "\<exists>key sv. row_key s f r = Inr key \<and> map_of r (logits_column (int n)) = Some sv \<and>
           (if map_of dyn key = None
            then n = 0 \<and> (\<exists>gd. map_of r ''gold'' = Some gd \<and>
                   dyn' = append_logits key sv (AList.update key \<lparr>gold = gd, logits = []\<rparr> dyn))
            else dyn' = append_logits key sv dyn)"
  using assms
  by (auto simp: merge_record_def getitem_def split: sum.splits if_splits option.splits)

lemma map_of_append_logits:
  "map_of (append_logits key sv dyn) =
     (map_of dyn)(key := map_option (\<lambda>e. e\<lparr>logits := logits e @ [sv]\<rparr>) (map_of dyn key))"
  by (auto simp: append_logits_def map_of_map_entry split: option.splits)

lemma logits_of_merge_record:
  assumes "merge_record n s f dyn r = Inr dyn'"
  shows "logits_of dyn' key = logits_of dyn key @ scores_for n s f key [r]"
proof -
  from merge_record_Inr [OF assms] obtain k sv where
    k: "row_key s f r = Inr k" and sv: "map_of r (logits_column (int n)) = Some sv"
    and d: "if map_of dyn k = None
            then n = 0 \<and> (\<exists>gd. map_of r ''gold'' = Some gd \<and>
                   dyn' = append_logits k sv (AList.update k \<lparr>gold = gd, logits = []\<rparr> dyn))
            else dyn' = append_logits k sv dyn"
    by blast
  show ?thesis
  proof (cases "map_of dyn k = None")
    case True
    with d obtain gd where
      "dyn' = append_logits k sv (AList.update k \<lparr>gold = gd, logits = []\<rparr> dyn)" by auto
    with True k sv show ?thesis
      by (auto simp: logits_of_def scores_for_def rows_with_key_def map_of_append_logits
          update_conv' List.map_filter_simps)
  next
    case False
    with d have "dyn' = append_logits k sv dyn" by simp
    with False k sv show ?thesis
      by (auto simp: logits_of_def scores_for_def rows_with_key_def map_of_append_logits
          List.map_filter_simps)
  qed
qed

lemma scores_for_Cons:
  "scores_for n s f key (r # rs) = scores_for n s f key [r] @ scores_for n s f key rs"
  by (simp add: scores_for_def rows_with_key_def List.map_filter_simps split: option.splits)

lemma logits_of_read_lines:
  "read_lines n s f rows dyn = Inr dyn' \<Longrightarrow>
     logits_of dyn' key = logits_of dyn key @ scores_for n s f key rows"
proof (induction rows arbitrary: dyn)
  case Nil
  then show ?case by (simp add: scores_for_def rows_with_key_def List.map_filter_simps)
next
  case (Cons r rs)
  from Cons.prems obtain d1 where m: "merge_record n s f dyn r = Inr d1"
    and rest: "read_lines n s f rs d1 = Inr dyn'"
    by (auto split: sum.splits)
  show ?case
    using Cons.IH [OF rest] logits_of_merge_record [OF m, of key] scores_for_Cons [of n s f key r rs]
    by simp
qed

lemma read_epochs_Cons_Inr:
  assumes "read_epochs td s f (n # ns) dyn = Inr dyn'"
  shows "\<exists>rows d1. map_of td (epoch_file_name (int n)) = Some (File rows) \<and>
           read_lines n s f rows dyn = Inr d1 \<and> read_epochs td s f ns d1 = Inr dyn'"
  using assms by (auto split: option.splits node.splits sum.splits)

lemma logits_of_read_epochs:
  "read_epochs td s f ns dyn = Inr dyn' \<Longrightarrow>
     logits_of dyn' key = logits_of dyn key @ concat (map (\<lambda>n. scores_for n s f key (file_rows td n)) ns)"
proof (induction ns arbitrary: dyn)
  case Nil
  then show ?case by simp
next
  case (Cons n ns)
  from read_epochs_Cons_Inr [OF Cons.prems] obtain rows d1 where
    f: "map_of td (epoch_file_name (int n)) = Some (File rows)"
    and l: "read_lines n s f rows dyn = Inr d1" and r: "read_epochs td s f ns d1 = Inr dyn'"
    by blast
  have "file_rows td n = rows" using f by (simp add: file_rows_def)
  then show ?case
    using Cons.IH [OF r] logits_of_read_lines [OF l, of key] by simp
qed

subsection \<open>The keys of the merged mapping\<close>

lemma merge_record_key:
  "merge_record n s f dyn r = Inr dyn' \<Longrightarrow> \<exists>key. row_key s f r = Inr key"
  by (auto simp: merge_record_def split: sum.splits)

lemma merge_record_score:
  "merge_record n s f dyn r = Inr dyn' \<Longrightarrow> \<exists>sv. map_of r (logits_column (int n)) = Some sv"
  by (auto simp: merge_record_def getitem_def split: sum.splits option.splits)

lemma merge_record_new:
  assumes "merge_record n s f dyn r = Inr dyn'" and "row_key s f r = Inr key"
    and "map_of r (logits_column (int n)) = Some sv" and "map_of dyn key = None"
  shows "n = 0" and "\<exists>gd. map_of r ''gold'' = Some gd \<and>
           map_of dyn' = (map_of dyn)(key \<mapsto> \<lparr>gold = gd, logits = [sv]\<rparr>)"
  using assms
  by (auto simp: merge_record_def getitem_def map_of_append_logits update_conv'
      split: sum.splits option.splits if_splits)

lemma merge_record_old:
  assumes "merge_record n s f dyn r = Inr dyn'" and "row_key s f r = Inr key"
    and "map_of r (logits_column (int n)) = Some sv" and "map_of dyn key = Some e"
  shows "map_of dyn' = (map_of dyn)(key \<mapsto> e\<lparr>logits := logits e @ [sv]\<rparr>)"
  using assms
  by (auto simp: merge_record_def getitem_def map_of_append_logits
      split: sum.splits option.splits if_splits)

lemma dom_merge_record:
  assumes "merge_record n s f dyn r = Inr dyn'"
  shows "\<exists>key. row_key s f r = Inr key \<and> dom (map_of dyn') = insert key (dom (map_of dyn)) \<and>
           (n \<noteq> 0 \<longrightarrow> key \<in> dom (map_of dyn))"
proof -
  from merge_record_key [OF assms] obtain key where k: "row_key s f r = Inr key" by blast
  from merge_record_score [OF assms] obtain sv where
    sv: "map_of r (logits_column (int n)) = Some sv" by blast
  have "dom (map_of dyn') = insert key (dom (map_of dyn)) \<and> (n \<noteq> 0 \<longrightarrow> key \<in> dom (map_of dyn))"
  proof (cases "map_of dyn key")
    case None
    from merge_record_new [OF assms k sv None] show ?thesis by auto
  next
    case (Some e)
    from merge_record_old [OF assms k sv Some] Some show ?thesis by auto
  qed
  with k show ?thesis by blast
qed

lemma read_lines_Cons_Inr:
  assumes "read_lines n s f (r # rs) dyn = Inr dyn'"
  obtains d1 where "merge_record n s f dyn r = Inr d1" and "read_lines n s f rs d1 = Inr dyn'"
  using assms by (auto split: sum.splits)

lemma dom_read_lines:
  "read_lines n s f rows dyn = Inr dyn' \<Longrightarrow>
     dom (map_of dyn') = dom (map_of dyn) \<union> {key. rows_with_key s f key rows \<noteq> []} \<and>
     (\<forall>r \<in> set rows. \<exists>key. row_key s f r = Inr key) \<and>
     (n \<noteq> 0 \<longrightarrow> dom (map_of dyn') = dom (map_of dyn))"
proof (induction rows arbitrary: dyn)
  case Nil
  then show ?case by (simp add: rows_with_key_def)
next
  case (Cons r rs)
  from Cons.prems obtain d1 where m: "merge_record n s f dyn r = Inr d1"
    and rest: "read_lines n s f rs d1 = Inr dyn'"
    by (rule read_lines_Cons_Inr)
  from dom_merge_record [OF m] obtain key where k: "row_key s f r = Inr key"
    and d: "dom (map_of d1) = insert key (dom (map_of dyn))"
    and nz: "n \<noteq> 0 \<longrightarrow> key \<in> dom (map_of dyn)" by blast
  from Cons.IH [OF rest] have
    ih1: "dom (map_of dyn') = dom (map_of d1) \<union> {key. rows_with_key s f key rs \<noteq> []}"
    and ih2: "\<forall>r \<in> set rs. \<exists>key. row_key s f r = Inr key"
    and ih3: "n \<noteq> 0 \<longrightarrow> dom (map_of dyn') = dom (map_of d1)" by blast+
  have "{key'. rows_with_key s f key' (r # rs) \<noteq> []} = insert key {key'. rows_with_key s f key' rs \<noteq> []}"
    using k by (auto simp: rows_with_key_def)
  with ih1 d have "dom (map_of dyn') = dom (map_of dyn) \<union> {key. rows_with_key s f key (r # rs) \<noteq> []}"
    by auto
  moreover have "\<forall>r' \<in> set (r # rs). \<exists>key. row_key s f r' = Inr key" using k ih2 by auto
  moreover have "n \<noteq> 0 \<longrightarrow> dom (map_of dyn') = dom (map_of dyn)" using ih3 d nz by auto
  ultimately show ?case by blast
qed

lemma dom_read_epochs:
  "read_epochs td s f ns dyn = Inr dyn' \<Longrightarrow>
     dom (map_of dyn') =
       dom (map_of dyn) \<union> (\<Union>n \<in> set ns. {key. rows_with_key s f key (file_rows td n) \<noteq> []}) \<and>
     (0 \<notin> set ns \<longrightarrow> dom (map_of dyn') = dom (map_of dyn))"
proof (induction ns arbitrary: dyn)
  case Nil
  then show ?case by simp
next
  case (Cons n ns)
  from read_epochs_Cons_Inr [OF Cons.prems] obtain rows d1 where
    fl: "map_of td (epoch_file_name (int n)) = Some (File rows)"
    and l: "read_lines n s f rows dyn = Inr d1" and r: "read_epochs td s f ns d1 = Inr dyn'"
    by blast
  have fr: "file_rows td n = rows" using fl by (simp add: file_rows_def)
  from dom_read_lines [OF l] have
    a: "dom (map_of d1) = dom (map_of dyn) \<union> {key. rows_with_key s f key rows \<noteq> []}"
    and b: "n \<noteq> 0 \<longrightarrow> dom (map_of d1) = dom (map_of dyn)" by blast+
  from Cons.IH [OF r] have
    c: "dom (map_of dyn') =
       dom (map_of d1) \<union> (\<Union>n \<in> set ns. {key. rows_with_key s f key (file_rows td n) \<noteq> []})"
    and d: "0 \<notin> set ns \<longrightarrow> dom (map_of dyn') = dom (map_of d1)" by blast+
  have "dom (map_of dyn') = dom (map_of dyn) \<union>
          (\<Union>n \<in> set (n # ns). {key. rows_with_key s f key (file_rows td n) \<noteq> []})"
    unfolding c a by (auto simp: fr)
  moreover have "0 \<notin> set (n # ns) \<longrightarrow> dom (map_of dyn') = dom (map_of dyn)"
    using b d by simp
  ultimately show ?case by blast
qed

text \<open>After a successful run from the empty mapping, the keys are those of epoch 0's file.\<close>

lemma upt_from_0: "0 < N \<Longrightarrow> [0..<N] = 0 # [1..<N]"
  by (simp add: upt_conv_Cons)

lemma dom_read_all:
  assumes "read_epochs td s f [0..<N] [] = Inr m"
  shows "dom (map_of m) = (if N = 0 then {} else {key. rows_with_key s f key (file_rows td 0) \<noteq> []})"
    and "\<forall>n < N. {key. rows_with_key s f key (file_rows td n) \<noteq> []} \<subseteq> dom (map_of m)"
proof -
  show "\<forall>n < N. {key. rows_with_key s f key (file_rows td n) \<noteq> []} \<subseteq> dom (map_of m)"
    using dom_read_epochs [OF assms] by auto
  show "dom (map_of m) = (if N = 0 then {} else {key. rows_with_key s f key (file_rows td 0) \<noteq> []})"
  proof (cases "N = 0")
    case True
    with assms show ?thesis by simp
  next
    case False
    then have N: "[0..<N] = 0 # [1..<N]" by (simp add: upt_from_0)
    from assms [unfolded N] read_epochs_Cons_Inr obtain rows d1 where
      fl: "map_of td (epoch_file_name (int 0)) = Some (File rows)"
      and l: "read_lines 0 s f rows [] = Inr d1" and r: "read_epochs td s f [1..<N] d1 = Inr m"
      by blast
    have fr: "file_rows td 0 = rows" using fl by (simp add: file_rows_def)
    from dom_read_lines [OF l] have "dom (map_of d1) = {key. rows_with_key s f key rows \<noteq> []}" by simp
    moreover have "0 \<notin> set [1..<N]" by simp
    with dom_read_epochs [OF r] have "dom (map_of m) = dom (map_of d1)" by blast
    ultimately show ?thesis using False fr by simp
  qed
qed

subsection \<open>The gold label of a key\<close>

lemma gold_merge_record:
  assumes "merge_record n s f dyn r = Inr dyn'" and "map_of dyn key = Some e"
  shows "\<exists>e'. map_of dyn' key = Some e' \<and> gold e' = gold e"
proof -
  from merge_record_key [OF assms(1)] obtain k where k: "row_key s f r = Inr k" by blast
  from merge_record_score [OF assms(1)] obtain sv where
    sv: "map_of r (logits_column (int n)) = Some sv" by blast
  show ?thesis
  proof (cases "map_of dyn k")
    case None
    from merge_record_new(2) [OF assms(1) k sv None] assms(2) None show ?thesis by auto
  next
    case (Some e0)
    from merge_record_old [OF assms(1) k sv Some] assms(2) Some show ?thesis by auto
  qed
qed

lemma gold_read_lines:
  "read_lines n s f rows dyn = Inr dyn' \<Longrightarrow> map_of dyn key = Some e \<Longrightarrow>
     \<exists>e'. map_of dyn' key = Some e' \<and> gold e' = gold e"
proof (induction rows arbitrary: dyn e)
  case Nil
  then show ?case by simp
next
  case (Cons r rs)
  from Cons.prems(1) obtain d1 where m: "merge_record n s f dyn r = Inr d1"
    and rest: "read_lines n s f rs d1 = Inr dyn'"
    by (rule read_lines_Cons_Inr)
  from gold_merge_record [OF m Cons.prems(2)] obtain e1 where
    e1: "map_of d1 key = Some e1" and g: "gold e1 = gold e" by blast
  from Cons.IH [OF rest e1] g show ?case by simp
qed

lemma gold_read_epochs:
  "read_epochs td s f ns dyn = Inr dyn' \<Longrightarrow> map_of dyn key = Some e \<Longrightarrow>
     \<exists>e'. map_of dyn' key = Some e' \<and> gold e' = gold e"
proof (induction ns arbitrary: dyn e)
  case Nil
  then show ?case by simp
next
  case (Cons n ns)
  from read_epochs_Cons_Inr [OF Cons.prems(1)] obtain rows d1 where
    l: "read_lines n s f rows dyn = Inr d1" and r: "read_epochs td s f ns d1 = Inr dyn'"
    by blast
  from gold_read_lines [OF l Cons.prems(2)] obtain e1 where
    e1: "map_of d1 key = Some e1" and g: "gold e1 = gold e" by blast
  from Cons.IH [OF r e1] g show ?case by simp
qed

text \<open>The first record of a key in epoch 0 fixes its gold label.\<close>

lemma first_gold_read_lines:
  "read_lines 0 s f rows dyn = Inr dyn' \<Longrightarrow> map_of dyn key = None \<Longrightarrow>
   map_of dyn' key = Some e \<Longrightarrow>
     \<exists>r rest. rows_with_key s f key rows = r # rest \<and> map_of r ''gold'' = Some (gold e)"
proof (induction rows arbitrary: dyn)
  case Nil
  then show ?case by simp
next
  case (Cons r rs)
  from Cons.prems(1) obtain d1 where m: "merge_record 0 s f dyn r = Inr d1"
    and rest: "read_lines 0 s f rs d1 = Inr dyn'"
    by (rule read_lines_Cons_Inr)
  from merge_record_key [OF m] obtain k where k: "row_key s f r = Inr k" by blast
  from merge_record_score [OF m] obtain sv where
    sv: "map_of r (logits_column (int 0)) = Some sv" by blast
  show ?case
  proof (cases "k = key")
    case True
    from merge_record_new(2) [OF m k sv] Cons.prems(2) True obtain gd where
      gd: "map_of r ''gold'' = Some gd"
      and d1: "map_of d1 = (map_of dyn)(key \<mapsto> \<lparr>gold = gd, logits = [sv]\<rparr>)" by auto
    from d1 have "map_of d1 key = Some \<lparr>gold = gd, logits = [sv]\<rparr>" by simp
    from gold_read_lines [OF rest this] Cons.prems(3) have "gold e = gd" by auto
    with gd k True show ?thesis by (simp add: rows_with_key_def)
  next
    case False
    have "map_of d1 key = None"
    proof (cases "map_of dyn k")
      case None
      from merge_record_new(2) [OF m k sv None] False Cons.prems(2) show ?thesis by auto
    next
      case (Some e0)
      from merge_record_old [OF m k sv Some] False Cons.prems(2) show ?thesis by auto
    qed
    from Cons.IH [OF rest this Cons.prems(3)] k False show ?thesis
      by (simp add: rows_with_key_def)
  qed
qed

lemma first_gold_read_all:
  assumes "read_epochs td s f [0..<N] [] = Inr m" and "map_of m key = Some e"
  shows "\<exists>r rest. rows_with_key s f key (file_rows td 0) = r # rest \<and>
           map_of r ''gold'' = Some (gold e)"
proof (cases "N = 0")
  case True
  with assms show ?thesis by simp
next
  case False
  then have N: "[0..<N] = 0 # [1..<N]" by (simp add: upt_from_0)
  from assms(1) [unfolded N] read_epochs_Cons_Inr obtain rows d1 where
    fl: "map_of td (epoch_file_name (int 0)) = Some (File rows)"
    and l: "read_lines 0 s f rows [] = Inr d1" and r: "read_epochs td s f [1..<N] d1 = Inr m"
    by blast
  have fr: "file_rows td 0 = rows" using fl by (simp add: file_rows_def)
  have "0 \<notin> set [1..<N]" by simp
  with dom_read_epochs [OF r] have "dom (map_of m) = dom (map_of d1)" by blast
  with assms(2) obtain e1 where e1: "map_of d1 key = Some e1" by (metis domD domI)
  from gold_read_epochs [OF r e1] assms(2) have g: "gold e = gold e1" by auto
  from first_gold_read_lines [OF l _ e1] g fr show ?thesis by simp
qed

subsection \<open>Which errors readable files can raise\<close>

lemma err_merge_record:
  "readable_row n s f r \<Longrightarrow> merge_record n s f dyn r = Inl e \<Longrightarrow> e = AssertionError"
  by (auto simp: readable_row_def merge_record_def getitem_def
      split: sum.splits option.splits if_splits)

lemma err_read_lines:
  "\<forall>r \<in> set rows. readable_row n s f r \<Longrightarrow> read_lines n s f rows dyn = Inl e \<Longrightarrow>
     e = AssertionError"
proof (induction rows arbitrary: dyn)
  case Nil
  then show ?case by simp
next
  case (Cons r rs)
  show ?case
  proof (cases "merge_record n s f dyn r")
    case (Inl e')
    with Cons.prems err_merge_record [of n s f r dyn e'] show ?thesis by simp
  next
    case (Inr d1)
    with Cons.prems Cons.IH [of d1] show ?thesis by simp
  qed
qed

lemma err_read_epochs:
  "\<forall>n \<in> set ns. readable_file td s f n \<Longrightarrow> read_epochs td s f ns dyn = Inl e \<Longrightarrow>
     e = AssertionError"
proof (induction ns arbitrary: dyn)
  case Nil
  then show ?case by simp
next
  case (Cons n ns)
  from Cons.prems(1) have rf: "readable_file td s f n" by simp
  show ?case
  proof (cases "map_of td (epoch_file_name (int n))")
    case None
    with Cons.prems(2) show ?thesis by simp
  next
    case (Some nd)
    show ?thesis
    proof (cases nd)
      case (Dir x)
      with Some rf show ?thesis by (simp add: readable_file_def)
    next
      case (File rows)
      with Some rf have rows: "\<forall>r \<in> set rows. readable_row n s f r"
        by (simp add: readable_file_def list_all_iff)
      show ?thesis
      proof (cases "read_lines n s f rows dyn")
        case (Inl e')
        with Some File Cons.prems(2) err_read_lines [OF rows Inl] show ?thesis by simp
      next
        case (Inr d1)
        with Some File Cons.prems Cons.IH [of d1] show ?thesis by simp
      qed
    qed
  qed
qed

subsection \<open>When the readers return\<close>

lemma ok_merge_record:
  assumes "readable_row n s f r" and "row_key s f r = Inr key"
    and "n \<noteq> 0 \<longrightarrow> key \<in> dom (map_of dyn)"
  shows "\<exists>dyn'. merge_record n s f dyn r = Inr dyn'"
  using assms
  by (auto simp: readable_row_def merge_record_def getitem_def
      split: sum.splits option.splits if_splits)

lemma ok_read_lines:
  "\<forall>r \<in> set rows. readable_row n s f r \<Longrightarrow>
   (n \<noteq> 0 \<longrightarrow> {key. rows_with_key s f key rows \<noteq> []} \<subseteq> dom (map_of dyn)) \<Longrightarrow>
     \<exists>dyn'. read_lines n s f rows dyn = Inr dyn'"
proof (induction rows arbitrary: dyn)
  case Nil
  then show ?case by simp
next
  case (Cons r rs)
  from Cons.prems(1) have rr: "readable_row n s f r" by simp
  then obtain key where k: "row_key s f r = Inr key"
    by (cases "row_key s f r") (auto simp: readable_row_def)
  have "rows_with_key s f key (r # rs) \<noteq> []" using k by (simp add: rows_with_key_def)
  with Cons.prems(2) have "n \<noteq> 0 \<longrightarrow> key \<in> dom (map_of dyn)" by blast
  from ok_merge_record [OF rr k this] obtain d1 where m: "merge_record n s f dyn r = Inr d1"
    by blast
  from dom_merge_record [OF m] have sub: "dom (map_of dyn) \<subseteq> dom (map_of d1)" by auto
  have "n \<noteq> 0 \<longrightarrow> {key. rows_with_key s f key rs \<noteq> []} \<subseteq> dom (map_of d1)"
  proof
    assume "n \<noteq> 0"
    with Cons.prems(2) have "{key. rows_with_key s f key (r # rs) \<noteq> []} \<subseteq> dom (map_of dyn)"
      by simp
    moreover have "{key. rows_with_key s f key rs \<noteq> []} \<subseteq> {key. rows_with_key s f key (r # rs) \<noteq> []}"
      by (auto simp: rows_with_key_def)
    ultimately show "{key. rows_with_key s f key rs \<noteq> []} \<subseteq> dom (map_of d1)"
      using sub by blast
  qed
  with Cons.IH [of d1] Cons.prems(1) obtain dyn' where "read_lines n s f rs d1 = Inr dyn'"
    by auto
  with m show ?case by simp
qed

lemma ok_read_epochs:
  assumes "\<forall>n \<in> set ns. \<exists>rows. map_of td (epoch_file_name (int n)) = Some (File rows)"
    and "\<forall>n \<in> set ns. readable_file td s f n"
    and "\<forall>n \<in> set ns. n \<noteq> 0 \<longrightarrow> {key. rows_with_key s f key (file_rows td n) \<noteq> []} \<subseteq> dom (map_of dyn)"
  shows "\<exists>dyn'. read_epochs td s f ns dyn = Inr dyn'"
  using assms
proof (induction ns arbitrary: dyn)
  case Nil
  then show ?case by simp
next
  case (Cons n ns)
  from Cons.prems(1) obtain rows where fl: "map_of td (epoch_file_name (int n)) = Some (File rows)"
    by auto
  have fr: "file_rows td n = rows" using fl by (simp add: file_rows_def)
  from Cons.prems(2) fl have rows: "\<forall>r \<in> set rows. readable_row n s f r"
    by (simp add: readable_file_def list_all_iff)
  from Cons.prems(3) fr have "n \<noteq> 0 \<longrightarrow> {key. rows_with_key s f key rows \<noteq> []} \<subseteq> dom (map_of dyn)"
    by simp
  from ok_read_lines [OF rows this] obtain d1 where l: "read_lines n s f rows dyn = Inr d1"
    by blast
  from dom_read_lines [OF l] have sub: "dom (map_of dyn) \<subseteq> dom (map_of d1)" by auto
  have "\<forall>n \<in> set ns. n \<noteq> 0 \<longrightarrow>
          {key. rows_with_key s f key (file_rows td n) \<noteq> []} \<subseteq> dom (map_of d1)"
    using Cons.prems(3) sub by (meson list.set_intros(2) subset_trans)
  with Cons.IH [of d1] Cons.prems(1,2) obtain dyn' where "read_epochs td s f ns d1 = Inr dyn'"
    by auto
  with fl l show ?case by simp
qed

lemma ok_read_all:
  assumes files: "\<forall>n < N. \<exists>rows. map_of td (epoch_file_name (int n)) = Some (File rows)"
    and rd: "\<forall>n < N. readable_file td s f n"
    and cons: "\<forall>n < N. {key. rows_with_key s f key (file_rows td n) \<noteq> []}
                 \<subseteq> {key. rows_with_key s f key (file_rows td 0) \<noteq> []}"
  shows "\<exists>m. read_epochs td s f [0..<N] [] = Inr m"
proof (cases "N = 0")
  case True
  then show ?thesis by simp
next
  case False
  then have N: "[0..<N] = 0 # [1..<N]" by (simp add: upt_from_0)
  from files False obtain rows where fl: "map_of td (epoch_file_name (int 0)) = Some (File rows)"
    by auto
  have fr: "file_rows td 0 = rows" using fl by (simp add: file_rows_def)
  from rd False fl have rows: "\<forall>r \<in> set rows. readable_row 0 s f r"
    by (auto simp: readable_file_def list_all_iff)
  from ok_read_lines [OF rows, of "[]"] obtain d1 where l: "read_lines 0 s f rows [] = Inr d1"
    by auto
  from dom_read_lines [OF l] have d1: "dom (map_of d1) = {key. rows_with_key s f key rows \<noteq> []}"
    by simp
  have "\<exists>m. read_epochs td s f [1..<N] d1 = Inr m"
  proof (rule ok_read_epochs)
    show "\<forall>n \<in> set [1..<N]. \<exists>rows. map_of td (epoch_file_name (int n)) = Some (File rows)"
      using files by simp
    show "\<forall>n \<in> set [1..<N]. readable_file td s f n" using rd by simp
    show "\<forall>n \<in> set [1..<N]. n \<noteq> 0 \<longrightarrow>
            {key. rows_with_key s f key (file_rows td n) \<noteq> []} \<subseteq> dom (map_of d1)"
      using cons d1 fr by simp
  qed
  with fl l N show ?thesis by simp
qed

subsection \<open>Prefixes of the epoch loop, and the scores a run collects\<close>

lemma read_epochs_append:
  "read_epochs td s f (xs @ ys) dyn =
     (case read_epochs td s f xs dyn of Inl e \<Rightarrow> Inl e | Inr d \<Rightarrow> read_epochs td s f ys d)"
  by (induction xs arbitrary: dyn) (auto split: option.splits node.splits sum.splits)

lemma read_epochs_cong:
  "\<forall>n \<in> set ns. map_of td (epoch_file_name (int n)) = map_of td' (epoch_file_name (int n)) \<Longrightarrow>
     read_epochs td s f ns dyn = read_epochs td' s f ns dyn"
  by (induction ns arbitrary: dyn) (auto split: option.splits node.splits sum.splits)

lemma read_lines_scores:
  "read_lines n s f rows dyn = Inr dyn' \<Longrightarrow>
     \<forall>r \<in> set rows. \<exists>sv. map_of r (logits_column (int n)) = Some sv"
proof (induction rows arbitrary: dyn)
  case Nil
  then show ?case by simp
next
  case (Cons r rs)
  from Cons.prems obtain d1 where m: "merge_record n s f dyn r = Inr d1"
    and rest: "read_lines n s f rs d1 = Inr dyn'"
    by (rule read_lines_Cons_Inr)
  from merge_record_score [OF m] Cons.IH [OF rest] show ?case by simp
qed

lemma scores_for_total:
  assumes "\<forall>r \<in> set rows. \<exists>sv. map_of r (logits_column (int n)) = Some sv"
  shows "map Some (scores_for n s f key rows) =
           map (\<lambda>r. map_of r (logits_column (int n))) (rows_with_key s f key rows)"
  using assms
  by (induction rows) (auto simp: scores_for_def rows_with_key_def List.map_filter_simps)

lemma length_scores_for:
  assumes "read_lines n s f rows dyn = Inr dyn'"
  shows "length (scores_for n s f key rows) = length (rows_with_key s f key rows)"
  using scores_for_total [OF read_lines_scores [OF assms], of s f key]
  by (metis length_map)

lemma scores_for_single:
  assumes "rows_with_key s f key rows = [r]" and "map_of r (logits_column (int n)) = Some sv"
  shows "scores_for n s f key rows = [sv]"
  using assms by (simp add: scores_for_def List.map_filter_simps)

lemma read_epochs_files:
  "read_epochs td s f ns dyn = Inr dyn' \<Longrightarrow>
     \<forall>n \<in> set ns. \<exists>rows. map_of td (epoch_file_name (int n)) = Some (File rows)"
proof (induction ns arbitrary: dyn)
  case Nil
  then show ?case by simp
next
  case (Cons n ns)
  from read_epochs_Cons_Inr [OF Cons.prems] obtain rows d1 where
    fl: "map_of td (epoch_file_name (int n)) = Some (File rows)"
    and r: "read_epochs td s f ns d1 = Inr dyn'" by blast
  from Cons.IH [OF r] fl show ?case by simp
qed

lemma read_epochs_lengths:
  "read_epochs td s f ns dyn = Inr dyn' \<Longrightarrow>
     \<forall>n \<in> set ns. length (scores_for n s f key (file_rows td n)) =
       length (rows_with_key s f key (file_rows td n))"
proof (induction ns arbitrary: dyn)
  case Nil
  then show ?case by simp
next
  case (Cons n ns)
  from read_epochs_Cons_Inr [OF Cons.prems] obtain rows d1 where
    fl: "map_of td (epoch_file_name (int n)) = Some (File rows)"
    and l: "read_lines n s f rows dyn = Inr d1"
    and r: "read_epochs td s f ns d1 = Inr dyn'" by blast
  have fr: "file_rows td n = rows" using fl by (simp add: file_rows_def)
  from Cons.IH [OF r] length_scores_for [OF l, of key] fr show ?case by simp
qed

lemma read_epochs_record_merged:
  assumes run: "read_epochs td s f ns [] = Inr m" and n: "n \<in> set ns"
    and r: "r \<in> set (file_rows td n)"
  shows "\<exists>key sv e. row_key s f r = Inr key \<and> map_of r (logits_column (int n)) = Some sv \<and>
           map_of m key = Some e \<and> sv \<in> set (logits e)"
proof -
  from read_epochs_files [OF run] n obtain rows where
    fl: "map_of td (epoch_file_name (int n)) = Some (File rows)" by blast
  have fr: "file_rows td n = rows" using fl by (simp add: file_rows_def)
  from run n obtain xs ys where ns: "ns = xs @ n # ys" by (meson split_list)
  from run [unfolded ns read_epochs_append] obtain d0 where
    "read_epochs td s f (n # ys) d0 = Inr m" by (auto split: sum.splits)
  from read_epochs_Cons_Inr [OF this] fl obtain d1 where
    l: "read_lines n s f rows d0 = Inr d1" by auto
  from dom_read_lines [OF l] r fr obtain key where k: "row_key s f r = Inr key" by blast
  from read_lines_scores [OF l] r fr obtain sv where
    sv: "map_of r (logits_column (int n)) = Some sv" by blast
  from k r have "r \<in> set (rows_with_key s f key (file_rows td n))"
    by (simp add: rows_with_key_def)
  with sv have "sv \<in> set (scores_for n s f key (file_rows td n))"
    by (force simp: scores_for_def List.map_filter_def)
  with n have "sv \<in> set (concat (map (\<lambda>n. scores_for n s f key (file_rows td n)) ns))"
    by auto
  with logits_of_read_epochs [OF run, of key] have in_l: "sv \<in> set (logits_of m key)"
    by (simp add: logits_of_def)
  then obtain e where "map_of m key = Some e" and "sv \<in> set (logits e)"
    by (cases "map_of m key") (auto simp: logits_of_def)
  with k sv show ?thesis by blast
qed

section \<open>The readers\<close>

text \<open>Unfolding rules that evaluate the readers on explicit directories.\<close>

lemmas eval_simps = read_dynamics_def num_epochs_def count_files_def isfile_def
  merge_record_def row_key_def getitem_def append_logits_def
  epoch_file_name_def logits_column_def str_int_def str_nat.simps digit_def upt_conv_Cons

lemma read_dynamics_dir:
  "map_of model_dir (subdir k) = Some (Dir td) \<Longrightarrow>
     read_dynamics k model_dir s f bo = read_epochs td s f [0..<nat (num_epochs td bo)] []"
  by (simp add: read_dynamics_def)

text \<open>
  Claim C4 (consistency enforcement). Let the reader, in either variant, iterate over
  epoch \<open>n > 0\<close>, and let the file of epoch \<open>n\<close> hold a record whose key no record of the
  file of epoch 0 has. Then the reader returns no mapping: it fails. When every epoch
  file it iterates over is a regular file of records with an identifier, a score column
  and (at epoch 0) a gold field, so that no other exception can come first, the failure
  is the assertion.
\<close>

theorem first_seen_after_epoch_0_fails:
  assumes dir: "map_of model_dir (subdir k) = Some (Dir td)"
    and pos: "0 < n" and iter: "int n < num_epochs td burn_out"
    and occurs: "rows_with_key strip_last id_field key (file_rows td n) \<noteq> []"
    and absent: "rows_with_key strip_last id_field key (file_rows td 0) = []"
  shows "(\<exists>e. read_dynamics k model_dir strip_last id_field burn_out = Inl e) \<and>
         ((\<forall>j < nat (num_epochs td burn_out). readable_file td strip_last id_field j) \<longrightarrow>
            read_dynamics k model_dir strip_last id_field burn_out = Inl AssertionError)"
proof -
  let ?N = "nat (num_epochs td burn_out)"
  let ?run = "read_epochs td strip_last id_field [0..<?N] []"
  have rd: "read_dynamics k model_dir strip_last id_field burn_out = ?run"
    using dir by (rule read_dynamics_dir)
  from iter have n: "n < ?N" by simp
  have fails: "\<exists>e. ?run = Inl e"
  proof (cases ?run)
    case (Inl e)
    then show ?thesis by simp
  next
    case (Inr m)
    from dom_read_all(2) [OF Inr] n occurs have "key \<in> dom (map_of m)" by blast
    moreover from n have "?N \<noteq> 0" by simp
    with dom_read_all(1) [OF Inr]
    have "dom (map_of m) = {key. rows_with_key strip_last id_field key (file_rows td 0) \<noteq> []}"
      by simp
    ultimately show ?thesis using absent by simp
  qed
  moreover have "(\<forall>j < ?N. readable_file td strip_last id_field j) \<longrightarrow> ?run = Inl AssertionError"
  proof
    assume "\<forall>j < ?N. readable_file td strip_last id_field j"
    then have "\<forall>j \<in> set [0..<?N]. readable_file td strip_last id_field j" by simp
    from fails err_read_epochs [OF this] show "?run = Inl AssertionError" by blast
  qed
  ultimately show ?thesis unfolding rd by blast
qed

theorem first_seen_after_epoch_0_fails_witness:
  "rows_with_key False ''guid'' (IntId 2) (file_rows late_instance_td 1) \<noteq> [] \<and>
   rows_with_key False ''guid'' (IntId 2) (file_rows late_instance_td 0) = [] \<and>
   read_training_dynamics [(''training_dynamics'', Dir late_instance_td)] False ''guid'' None
     = Inl AssertionError \<and>
   read_eval_dynamics [(''eval_dynamics'', Dir late_instance_td)] False ''guid'' None
     = Inl AssertionError"
proof -
  have cnt: "num_epochs late_instance_td None = 2"
    by (simp add: late_instance_td_def num_epochs_def count_files_def isfile_def)
  have occurs: "rows_with_key False ''guid'' (IntId 2) (file_rows late_instance_td 1) \<noteq> []"
    by (simp add: late_instance_td_def rows_with_key_def file_rows_def eval_simps)
  have absent: "rows_with_key False ''guid'' (IntId 2) (file_rows late_instance_td 0) = []"
    by (simp add: late_instance_td_def rows_with_key_def file_rows_def eval_simps)
  have readable: "\<forall>j < nat (num_epochs late_instance_td None).
      readable_file late_instance_td False ''guid'' j"
    unfolding cnt
    by (simp add: late_instance_td_def readable_file_def readable_row_def eval_simps
        All_less_Suc numeral_2_eq_2)
  have "read_dynamics Training [(''training_dynamics'', Dir late_instance_td)] False ''guid'' None
      = Inl AssertionError"
    using first_seen_after_epoch_0_fails [of "[(''training_dynamics'', Dir late_instance_td)]"
        Training late_instance_td 1 None False "''guid''" "IntId 2"] occurs absent readable cnt
    by simp
  moreover have "read_dynamics Eval [(''eval_dynamics'', Dir late_instance_td)] False ''guid'' None
      = Inl AssertionError"
    using first_seen_after_epoch_0_fails [of "[(''eval_dynamics'', Dir late_instance_td)]"
        Eval late_instance_td 1 None False "''guid''" "IntId 2"] occurs absent readable cnt
    by simp
  ultimately show ?thesis
    using occurs absent by (simp add: read_training_dynamics_def read_eval_dynamics_def)
qed

text \<open>
  Claim C5 (missing epoch file). Let \<open>n\<close> be an epoch number below the number of epochs
  to read whose file does not exist. Then the run of either reader is the run over the
  epochs before \<open>n\<close> followed by the failure of the assertion: when the reader gets as far
  as epoch \<open>n\<close> it fails with the assertion, and nothing of a later epoch is read.
\<close>

theorem missing_epoch_file_fails:
  assumes dir: "map_of model_dir (subdir k) = Some (Dir td)"
    and iter: "int n < num_epochs td burn_out"
    and missing: "map_of td (epoch_file_name (int n)) = None"
  shows "read_dynamics k model_dir strip_last id_field burn_out =
           (case read_epochs td strip_last id_field [0..<n] [] of
              Inl e \<Rightarrow> Inl e | Inr d \<Rightarrow> Inl AssertionError) \<and>
         (\<forall>d. read_epochs td strip_last id_field [0..<n] [] = Inr d \<longrightarrow>
            read_dynamics k model_dir strip_last id_field burn_out = Inl AssertionError)"
proof -
  let ?N = "nat (num_epochs td burn_out)"
  from iter have "n < ?N" by simp
  then have "[0..<?N] = [0..<n] @ [n..<?N]" and "[n..<?N] = n # [Suc n..<?N]"
    using upt_add_eq_append [of 0 n "?N - n"] by (simp_all add: upt_conv_Cons)
  then have "[0..<?N] = [0..<n] @ n # [Suc n..<?N]" by simp
  then have "read_epochs td strip_last id_field [0..<?N] [] =
      (case read_epochs td strip_last id_field [0..<n] [] of
         Inl e \<Rightarrow> Inl e | Inr d \<Rightarrow> Inl AssertionError)"
    using missing by (simp add: read_epochs_append split: sum.splits)
  then show ?thesis using read_dynamics_dir [OF dir] by simp
qed

theorem missing_epoch_file_fails_witness:
  "read_epochs epoch_0_only_td False ''guid'' [0..<1] [] =
     Inr [(IntId 1, \<lparr>gold = JInt 1, logits = [JVec [0.1, 0.9]]\<rparr>),
          (IntId 2, \<lparr>gold = JInt 0, logits = [JVec [0.8, 0.2]]\<rparr>)] \<and>
   read_training_dynamics [(''training_dynamics'', Dir epoch_0_only_td)] False ''guid'' (Some 2)
     = Inl AssertionError \<and>
   read_eval_dynamics [(''eval_dynamics'', Dir epoch_0_only_td)] False ''guid'' (Some 2)
     = Inl AssertionError"
proof -
  have run: "read_epochs epoch_0_only_td False ''guid'' [0..<1] [] =
     Inr [(IntId 1, \<lparr>gold = JInt 1, logits = [JVec [0.1, 0.9]]\<rparr>),
          (IntId 2, \<lparr>gold = JInt 0, logits = [JVec [0.8, 0.2]]\<rparr>)]"
    by (simp add: epoch_0_only_td_def eval_simps)
  have iter: "int 1 < num_epochs epoch_0_only_td (Some 2)" by (simp add: num_epochs_def)
  have missing: "map_of epoch_0_only_td (epoch_file_name (int 1)) = None"
    by (simp add: epoch_0_only_td_def eval_simps)
  have "read_dynamics Training [(''training_dynamics'', Dir epoch_0_only_td)] False ''guid'' (Some 2)
      = Inl AssertionError"
    using missing_epoch_file_fails [of "[(''training_dynamics'', Dir epoch_0_only_td)]" Training
        epoch_0_only_td 1 "Some 2" False "''guid''", OF _ iter missing] run
    by simp
  moreover have "read_dynamics Eval [(''eval_dynamics'', Dir epoch_0_only_td)] False ''guid'' (Some 2)
      = Inl AssertionError"
    using missing_epoch_file_fails [of "[(''eval_dynamics'', Dir epoch_0_only_td)]" Eval
        epoch_0_only_td 1 "Some 2" False "''guid''", OF _ iter missing] run
    by simp
  ultimately show ?thesis
    using run by (simp add: read_training_dynamics_def read_eval_dynamics_def)
qed

lemma sum_list_ones: "\<forall>x \<in> set xs. g x = (1::nat) \<Longrightarrow> sum_list (map g xs) = length xs"
  by (induction xs) auto

lemma length_logits_read_epochs:
  assumes "read_epochs td s f ns [] = Inr m"
  shows "length (logits_of m key) =
           sum_list (map (\<lambda>n. length (rows_with_key s f key (file_rows td n))) ns)"
proof -
  have "length (logits_of m key) =
          sum_list (map (\<lambda>n. length (scores_for n s f key (file_rows td n))) ns)"
    using logits_of_read_epochs [OF assms, of key]
    by (simp add: logits_of_def length_concat comp_def)
  also have "\<dots> = sum_list (map (\<lambda>n. length (rows_with_key s f key (file_rows td n))) ns)"
    using read_epochs_lengths [OF assms, of key] by (auto intro: arg_cong [where f = sum_list])
  finally show ?thesis .
qed

text \<open>
  Claim C6, as amended (burn-out truncation). For every supplied cutoff \<open>b > 0\<close>, either
  reader takes \<open>b\<close> as the number of epochs whatever the sub-directory lists, and reads
  the files of the epochs \<open>0, \<dots>, b - 1\<close> only: two directories that agree on these files
  give the same result. In a returned mapping, an instance that has exactly one record in
  each of these files has a history of length \<open>b\<close>.
\<close>

theorem burn_out_truncation:
  assumes pos: "0 < b"
    and dir1: "map_of dir1 (subdir k) = Some (Dir td1)"
    and dir2: "map_of dir2 (subdir k) = Some (Dir td2)"
    and agree: "\<forall>j < nat b. map_of td1 (epoch_file_name (int j)) = map_of td2 (epoch_file_name (int j))"
  shows "num_epochs td1 (Some b) = b \<and>
         read_dynamics k dir1 strip_last id_field (Some b) =
           read_epochs td1 strip_last id_field [0..<nat b] [] \<and>
         read_dynamics k dir2 strip_last id_field (Some b) =
           read_dynamics k dir1 strip_last id_field (Some b) \<and>
         (\<forall>m key. read_dynamics k dir1 strip_last id_field (Some b) = Inr m \<longrightarrow>
            (\<forall>j < nat b. length (rows_with_key strip_last id_field key (file_rows td1 j)) = 1) \<longrightarrow>
            length (logits_of m key) = nat b)"
proof -
  from pos have n1: "num_epochs td1 (Some b) = b" and n2: "num_epochs td2 (Some b) = b"
    by (simp_all add: num_epochs_def)
  have r1: "read_dynamics k dir1 strip_last id_field (Some b) =
      read_epochs td1 strip_last id_field [0..<nat b] []"
    using read_dynamics_dir [OF dir1] n1 by simp
  have r2: "read_dynamics k dir2 strip_last id_field (Some b) =
      read_epochs td2 strip_last id_field [0..<nat b] []"
    using read_dynamics_dir [OF dir2] n2 by simp
  have same: "read_epochs td1 strip_last id_field [0..<nat b] [] =
      read_epochs td2 strip_last id_field [0..<nat b] []"
    using agree by (intro read_epochs_cong) simp
  have len: "length (logits_of m key) = nat b"
    if run: "read_dynamics k dir1 strip_last id_field (Some b) = Inr m"
      and once: "\<forall>j < nat b. length (rows_with_key strip_last id_field key (file_rows td1 j)) = 1"
    for m key
  proof -
    from run r1 have "read_epochs td1 strip_last id_field [0..<nat b] [] = Inr m" by simp
    from length_logits_read_epochs [OF this, of key]
    have "length (logits_of m key) =
        sum_list (map (\<lambda>n. length (rows_with_key strip_last id_field key (file_rows td1 n)))
          [0..<nat b])" .
    also have "\<dots> = length [0..<nat b]"
      using once by (intro sum_list_ones) simp
    finally show ?thesis by simp
  qed
  from n1 r1 r2 same len show ?thesis by simp
qed

theorem burn_out_truncation_witness:
  "read_training_dynamics [(''training_dynamics'', Dir spec_example_td)] False ''guid'' (Some 1) =
     Inr [(IntId 1, \<lparr>gold = JInt 1, logits = [JVec [0.1, 0.9]]\<rparr>),
          (IntId 2, \<lparr>gold = JInt 0, logits = [JVec [0.8, 0.2]]\<rparr>)] \<and>
   read_training_dynamics [(''training_dynamics'', Dir epoch_0_only_td)] False ''guid'' (Some 1) =
     read_training_dynamics [(''training_dynamics'', Dir spec_example_td)] False ''guid'' (Some 1) \<and>
   length (logits_of [(IntId 1, \<lparr>gold = JInt 1, logits = [JVec [0.1, 0.9 :: real]]\<rparr>),
                      (IntId 2, \<lparr>gold = JInt 0, logits = [JVec [0.8, 0.2]]\<rparr>)] (IntId 2)) = 1"
proof -
  have agree: "\<forall>j < nat 1. map_of spec_example_td (epoch_file_name (int j)) =
      map_of epoch_0_only_td (epoch_file_name (int j))"
    by (simp add: spec_example_td_def epoch_0_only_td_def eval_simps)
  have run: "read_epochs spec_example_td False ''guid'' [0..<nat 1] [] =
     Inr [(IntId 1, \<lparr>gold = JInt 1, logits = [JVec [0.1, 0.9]]\<rparr>),
          (IntId 2, \<lparr>gold = JInt 0, logits = [JVec [0.8, 0.2]]\<rparr>)]"
    by (simp add: spec_example_td_def eval_simps)
  have once: "\<forall>j < nat 1. length (rows_with_key False ''guid'' (IntId 2)
      (file_rows spec_example_td j)) = 1"
    by (simp add: spec_example_td_def rows_with_key_def file_rows_def eval_simps)
  from burn_out_truncation [of 1 "[(''training_dynamics'', Dir spec_example_td)]" Training
      spec_example_td "[(''training_dynamics'', Dir epoch_0_only_td)]" epoch_0_only_td
      False "''guid''", OF _ _ _ agree] run once
  show ?thesis
    by (simp add: read_training_dynamics_def)
qed

text \<open>
  The claim as stated fails for the cutoff 0: the test \<^verbatim>\<open>if burn_out:\<close> is false for 0, so
  that the count of files is used and the one file of the directory is read. It also
  fails for the length of a history when a file holds an instance twice.
\<close>

theorem burn_out_zero_counterexample:
  "read_training_dynamics [(''training_dynamics'', Dir epoch_0_only_td)] False ''guid'' (Some 0) =
     Inr [(IntId 1, \<lparr>gold = JInt 1, logits = [JVec [0.1, 0.9]]\<rparr>),
          (IntId 2, \<lparr>gold = JInt 0, logits = [JVec [0.8, 0.2]]\<rparr>)] \<and>
   read_eval_dynamics [(''eval_dynamics'', Dir duplicate_td)] False ''guid'' (Some 1) =
     Inr [(IntId 1, \<lparr>gold = JInt 1, logits = [JVec [0.1, 0.9], JVec [0.3, 0.7]]\<rparr>)]"
  by (simp add: read_training_dynamics_def read_eval_dynamics_def epoch_0_only_td_def
      duplicate_td_def eval_simps)

lemmas name_simps = epoch_file_name_def logits_column_def str_int_def str_nat.simps digit_def

lemma distinct_epoch_file_names: "distinct (map (\<lambda>j. epoch_file_name (int j)) [0..<n])"
  by (auto simp: distinct_map inj_on_def dest: epoch_file_name_inj)

text \<open>
  Claim C7 (epoch count from the directory listing). Without a cutoff, either reader
  takes as the number of epochs the count of the regular files that the sub-directory
  lists, whatever their names, and iterates over the epochs below this count; when it
  returns a mapping, the file of each of these epochs exists. For a sub-directory whose
  regular files are exactly the epoch files numbered \<open>0, \<dots>, n - 1\<close>, the count is \<open>n\<close>.
\<close>

theorem epoch_count_from_listing:
  assumes dir: "map_of model_dir (subdir k) = Some (Dir td)"
  shows "num_epochs td None = int (length (filter (isfile td) (map fst td))) \<and>
         read_dynamics k model_dir strip_last id_field None =
           read_epochs td strip_last id_field [0..<length (filter (isfile td) (map fst td))] [] \<and>
         (\<forall>m. read_dynamics k model_dir strip_last id_field None = Inr m \<longrightarrow>
            (\<forall>j < length (filter (isfile td) (map fst td)).
               \<exists>rows. map_of td (epoch_file_name (int j)) = Some (File rows))) \<and>
         (\<forall>n. distinct (map fst td) \<and>
              set (filter (isfile td) (map fst td)) = set (map (\<lambda>j. epoch_file_name (int j)) [0..<n])
              \<longrightarrow> num_epochs td None = int n)"
proof -
  let ?files = "filter (isfile td) (map fst td)"
  have cnt: "num_epochs td None = int (length ?files)"
    by (simp add: num_epochs_def count_files_def)
  have rd: "read_dynamics k model_dir strip_last id_field None =
      read_epochs td strip_last id_field [0..<length ?files] []"
    using read_dynamics_dir [OF dir, of strip_last id_field None] cnt by simp
  have req: "\<forall>j < length ?files. \<exists>rows. map_of td (epoch_file_name (int j)) = Some (File rows)"
    if "read_dynamics k model_dir strip_last id_field None = Inr m" for m
    using read_epochs_files [of td strip_last id_field "[0..<length ?files]" "[]" m] that rd
    by simp
  have contiguous: "num_epochs td None = int n"
    if d: "distinct (map fst td)"
      and s: "set ?files = set (map (\<lambda>j. epoch_file_name (int j)) [0..<n])" for n
  proof -
    from d have "distinct ?files" by (rule distinct_filter)
    then have "card (set ?files) = length ?files" by (rule distinct_card)
    then have "length ?files = card (set ?files)" by (rule sym)
    also have "\<dots> = card (set (map (\<lambda>j. epoch_file_name (int j)) [0..<n]))" using s by simp
    also have "\<dots> = length (map (\<lambda>j. epoch_file_name (int j)) [0..<n])"
      by (rule distinct_card) (rule distinct_epoch_file_names)
    finally show ?thesis using cnt by simp
  qed
  have c3: "\<forall>m. read_dynamics k model_dir strip_last id_field None = Inr m \<longrightarrow>
            (\<forall>j < length ?files.
               \<exists>rows. map_of td (epoch_file_name (int j)) = Some (File rows))"
    using req by blast
  have c4: "\<forall>n. distinct (map fst td) \<and>
              set ?files = set (map (\<lambda>j. epoch_file_name (int j)) [0..<n])
              \<longrightarrow> num_epochs td None = int n"
    using contiguous by blast
  show ?thesis by (rule conjI [OF cnt conjI [OF rd conjI [OF c3 c4]]])
qed


theorem epoch_count_from_listing_witness:
  "num_epochs spec_example_td None = 2 \<and>
   read_training_dynamics [(''training_dynamics'', Dir spec_example_td)] False ''guid'' None =
     Inr [(IntId 1, \<lparr>gold = JInt 1, logits = [JVec [0.1, 0.9], JVec [0.2, 0.8]]\<rparr>),
          (IntId 2, \<lparr>gold = JInt 0, logits = [JVec [0.8, 0.2], JVec [0.7, 0.3]]\<rparr>)] \<and>
   read_eval_dynamics [(''eval_dynamics'', Dir spec_example_td)] False ''guid'' None =
     Inr [(IntId 1, \<lparr>gold = JInt 1, logits = [JVec [0.1, 0.9], JVec [0.2, 0.8]]\<rparr>),
          (IntId 2, \<lparr>gold = JInt 0, logits = [JVec [0.8, 0.2], JVec [0.7, 0.3]]\<rparr>)]"
proof -
  have files: "filter (isfile spec_example_td) (map fst spec_example_td) =
      [''dynamics_epoch_0.jsonl'', ''dynamics_epoch_1.jsonl'']"
    by (simp add: spec_example_td_def isfile_def)
  have "[0..<2] = [0, Suc 0]" by (simp add: upt_conv_Cons)
  then have names: "map (\<lambda>j. epoch_file_name (int j)) [0..<2] =
      [''dynamics_epoch_0.jsonl'', ''dynamics_epoch_1.jsonl'']"
    by (simp add: name_simps)
  have contiguous: "distinct (map fst spec_example_td) \<and>
      set (filter (isfile spec_example_td) (map fst spec_example_td)) =
        set (map (\<lambda>j. epoch_file_name (int j)) [0..<2])"
    unfolding files names by (simp add: spec_example_td_def)
  have len: "length (filter (isfile spec_example_td) (map fst spec_example_td)) = 2"
    unfolding files by simp
  have run: "read_epochs spec_example_td False ''guid'' [0..<2] [] =
     Inr [(IntId 1, \<lparr>gold = JInt 1, logits = [JVec [0.1, 0.9], JVec [0.2, 0.8]]\<rparr>),
          (IntId 2, \<lparr>gold = JInt 0, logits = [JVec [0.8, 0.2], JVec [0.7, 0.3]]\<rparr>)]"
    by (simp add: spec_example_td_def eval_simps)
  have tr: "map_of [(''training_dynamics'', Dir spec_example_td)] (subdir Training)
      = Some (Dir spec_example_td)" by simp
  have ev: "map_of [(''eval_dynamics'', Dir spec_example_td)] (subdir Eval)
      = Some (Dir spec_example_td)" by simp
  note t = epoch_count_from_listing [OF tr, of False "''guid''", unfolded len]
  note e = epoch_count_from_listing [OF ev, of False "''guid''", unfolded len]
  from contiguous t have "num_epochs spec_example_td None = int 2" by blast
  moreover from t have "read_dynamics Training [(''training_dynamics'', Dir spec_example_td)]
      False ''guid'' None = read_epochs spec_example_td False ''guid'' [0..<2] []" by blast
  moreover from e have "read_dynamics Eval [(''eval_dynamics'', Dir spec_example_td)]
      False ''guid'' None = read_epochs spec_example_td False ''guid'' [0..<2] []" by blast
  ultimately show ?thesis
    unfolding read_training_dynamics_def read_eval_dynamics_def run by simp
qed

text \<open>
  Claim C10 (duplicate keys within one epoch are tolerated and inflate the history). In
  a mapping returned by either reader, the history of a key is the sequence of the score
  vectors of all records bearing that key, file after file in epoch order and record
  after record in file order; its length is the total number of such records over the
  epochs read, which exceeds the number of epoch files when a file holds the key more
  than once. The reader returns a mapping whenever the epoch files exist, their records
  are readable and every key of a later file occurs in the file of epoch 0: no condition
  on how often a key occurs.
\<close>

theorem duplicates_inflate_history:
  assumes dir: "map_of model_dir (subdir k) = Some (Dir td)"
  shows "(\<forall>m key. read_dynamics k model_dir strip_last id_field burn_out = Inr m \<longrightarrow>
            logits_of m key =
              concat (map (\<lambda>j. scores_for j strip_last id_field key (file_rows td j))
                [0..<nat (num_epochs td burn_out)]) \<and>
            length (logits_of m key) =
              sum_list (map (\<lambda>j. length (rows_with_key strip_last id_field key (file_rows td j)))
                [0..<nat (num_epochs td burn_out)])) \<and>
         ((\<forall>j < nat (num_epochs td burn_out).
              \<exists>rows. map_of td (epoch_file_name (int j)) = Some (File rows)) \<and>
          (\<forall>j < nat (num_epochs td burn_out). readable_file td strip_last id_field j) \<and>
          (\<forall>j < nat (num_epochs td burn_out). \<forall>key.
              rows_with_key strip_last id_field key (file_rows td j) \<noteq> [] \<longrightarrow>
              rows_with_key strip_last id_field key (file_rows td 0) \<noteq> [])
          \<longrightarrow> (\<exists>m. read_dynamics k model_dir strip_last id_field burn_out = Inr m))"
proof -
  let ?N = "nat (num_epochs td burn_out)"
  have rd: "read_dynamics k model_dir strip_last id_field burn_out =
      read_epochs td strip_last id_field [0..<?N] []"
    using dir by (rule read_dynamics_dir)
  have hist: "logits_of m key =
        concat (map (\<lambda>j. scores_for j strip_last id_field key (file_rows td j)) [0..<?N]) \<and>
      length (logits_of m key) =
        sum_list (map (\<lambda>j. length (rows_with_key strip_last id_field key (file_rows td j))) [0..<?N])"
    if "read_dynamics k model_dir strip_last id_field burn_out = Inr m" for m key
  proof -
    from that rd have run: "read_epochs td strip_last id_field [0..<?N] [] = Inr m" by simp
    from logits_of_read_epochs [OF run, of key] length_logits_read_epochs [OF run, of key]
    show ?thesis by (simp add: logits_of_def)
  qed
  have returns: "\<exists>m. read_dynamics k model_dir strip_last id_field burn_out = Inr m"
    if files: "\<forall>j < ?N. \<exists>rows. map_of td (epoch_file_name (int j)) = Some (File rows)"
      and readable: "\<forall>j < ?N. readable_file td strip_last id_field j"
      and cons: "\<forall>j < ?N. \<forall>key.
              rows_with_key strip_last id_field key (file_rows td j) \<noteq> [] \<longrightarrow>
              rows_with_key strip_last id_field key (file_rows td 0) \<noteq> []"
  proof -
    from cons have "\<forall>n < ?N. {key. rows_with_key strip_last id_field key (file_rows td n) \<noteq> []}
                 \<subseteq> {key. rows_with_key strip_last id_field key (file_rows td 0) \<noteq> []}"
      by blast
    from ok_read_all [OF files readable this] rd show ?thesis by simp
  qed
  have c1: "\<forall>m key. read_dynamics k model_dir strip_last id_field burn_out = Inr m \<longrightarrow>
            logits_of m key =
              concat (map (\<lambda>j. scores_for j strip_last id_field key (file_rows td j)) [0..<?N]) \<and>
            length (logits_of m key) =
              sum_list (map (\<lambda>j. length (rows_with_key strip_last id_field key (file_rows td j)))
                [0..<?N])"
    using hist by blast
  have c2: "(\<forall>j < ?N. \<exists>rows. map_of td (epoch_file_name (int j)) = Some (File rows)) \<and>
          (\<forall>j < ?N. readable_file td strip_last id_field j) \<and>
          (\<forall>j < ?N. \<forall>key.
              rows_with_key strip_last id_field key (file_rows td j) \<noteq> [] \<longrightarrow>
              rows_with_key strip_last id_field key (file_rows td 0) \<noteq> [])
          \<longrightarrow> (\<exists>m. read_dynamics k model_dir strip_last id_field burn_out = Inr m)"
    using returns by blast
  show ?thesis by (rule conjI [OF c1 c2])
qed

theorem duplicates_inflate_history_witness:
  "num_epochs duplicate_td None = 1 \<and>
   length (rows_with_key False ''guid'' (IntId 1) (file_rows duplicate_td 0)) = 2 \<and>
   (\<exists>m. read_training_dynamics [(''training_dynamics'', Dir duplicate_td)] False ''guid'' None
           = Inr m \<and> length (logits_of m (IntId 1)) = 2) \<and>
   (\<exists>m. read_eval_dynamics [(''eval_dynamics'', Dir duplicate_td)] False ''guid'' None
           = Inr m \<and> length (logits_of m (IntId 1)) = 2)"
proof -
  have cnt: "num_epochs duplicate_td None = 1"
    by (simp add: duplicate_td_def num_epochs_def count_files_def isfile_def)
  have rows: "length (rows_with_key False ''guid'' (IntId 1) (file_rows duplicate_td 0)) = 2"
    by (simp add: duplicate_td_def rows_with_key_def file_rows_def eval_simps)
  have files: "\<forall>j < nat (num_epochs duplicate_td None).
      \<exists>rows. map_of duplicate_td (epoch_file_name (int j)) = Some (File rows)"
    unfolding cnt by (simp add: duplicate_td_def name_simps)
  have readable: "\<forall>j < nat (num_epochs duplicate_td None).
      readable_file duplicate_td False ''guid'' j"
    unfolding cnt
    by (simp add: duplicate_td_def readable_file_def readable_row_def eval_simps)
  have cons: "\<forall>j < nat (num_epochs duplicate_td None). \<forall>key.
      rows_with_key False ''guid'' key (file_rows duplicate_td j) \<noteq> [] \<longrightarrow>
      rows_with_key False ''guid'' key (file_rows duplicate_td 0) \<noteq> []"
    unfolding cnt by simp
  have len: "sum_list (map (\<lambda>j. length (rows_with_key False ''guid'' (IntId 1)
      (file_rows duplicate_td j))) [0..<nat (num_epochs duplicate_td None)]) = 2"
    unfolding cnt using rows by simp
  have tr: "map_of [(''training_dynamics'', Dir duplicate_td)] (subdir Training)
      = Some (Dir duplicate_td)" by simp
  have ev: "map_of [(''eval_dynamics'', Dir duplicate_td)] (subdir Eval)
      = Some (Dir duplicate_td)" by simp
  note t = duplicates_inflate_history [OF tr, of False "''guid''" None]
  note e = duplicates_inflate_history [OF ev, of False "''guid''" None]
  from t files readable cons obtain m where
    m: "read_dynamics Training [(''training_dynamics'', Dir duplicate_td)] False ''guid'' None = Inr m"
    by blast
  with t have "length (logits_of m (IntId 1)) =
      sum_list (map (\<lambda>j. length (rows_with_key False ''guid'' (IntId 1)
        (file_rows duplicate_td j))) [0..<nat (num_epochs duplicate_td None)])" by blast
  with len m have a: "\<exists>m. read_training_dynamics [(''training_dynamics'', Dir duplicate_td)]
      False ''guid'' None = Inr m \<and> length (logits_of m (IntId 1)) = 2"
    by (simp add: read_training_dynamics_def)
  from e files readable cons obtain m' where
    m': "read_dynamics Eval [(''eval_dynamics'', Dir duplicate_td)] False ''guid'' None = Inr m'"
    by blast
  with e have "length (logits_of m' (IntId 1)) =
      sum_list (map (\<lambda>j. length (rows_with_key False ''guid'' (IntId 1)
        (file_rows duplicate_td j))) [0..<nat (num_epochs duplicate_td None)])" by blast
  with len m' have b: "\<exists>m. read_eval_dynamics [(''eval_dynamics'', Dir duplicate_td)]
      False ''guid'' None = Inr m \<and> length (logits_of m (IntId 1)) = 2"
    by (simp add: read_eval_dynamics_def)
  from cnt rows a b show ?thesis by blast
qed

lemma concat_singletons: "concat (map (\<lambda>j. [g j]) xs) = map g xs"
  by (induction xs) auto

text \<open>
  Claim C2, as amended (multi-epoch merge). Let the sub-directory hold \<open>n + 1\<close> regular
  files and let either reader, called without a cutoff, return a mapping. For an instance
  that has exactly one record in the file of each epoch \<open>0, \<dots>, n\<close>, with score vector
  \<open>sv j\<close> at epoch \<open>j\<close>, the mapping has an entry whose history is \<open>sv 0, \<dots>, sv n\<close>: it
  has length \<open>n + 1\<close> and the score vector of epoch \<open>j\<close> at position \<open>j\<close>.
\<close>

theorem multi_epoch_merge:
  assumes dir: "map_of model_dir (subdir k) = Some (Dir td)"
    and cnt: "count_files td = int (Suc n)"
    and ok: "read_dynamics k model_dir strip_last id_field None = Inr m"
    and once: "\<forall>j \<le> n. \<exists>r. rows_with_key strip_last id_field key (file_rows td j) = [r] \<and>
                 map_of r (logits_column (int j)) = Some (sv j)"
  shows "\<exists>e. map_of m key = Some e \<and> logits e = map sv [0..<Suc n] \<and>
           length (logits e) = Suc n \<and> (\<forall>j \<le> n. logits e ! j = sv j)"
proof -
  from cnt have N: "nat (num_epochs td None) = Suc n" by (simp add: num_epochs_def)
  from ok read_dynamics_dir [OF dir, of strip_last id_field None] N
  have run: "read_epochs td strip_last id_field [0..<Suc n] [] = Inr m" by simp
  have sc: "\<forall>j \<in> set [0..<Suc n]. scores_for j strip_last id_field key (file_rows td j) = [sv j]"
  proof
    fix j assume "j \<in> set [0..<Suc n]"
    then have "j \<le> n" by auto
    with once obtain r where "rows_with_key strip_last id_field key (file_rows td j) = [r]"
      and "map_of r (logits_column (int j)) = Some (sv j)" by blast
    then show "scores_for j strip_last id_field key (file_rows td j) = [sv j]"
      by (rule scores_for_single)
  qed
  have "map (\<lambda>j. scores_for j strip_last id_field key (file_rows td j)) [0..<Suc n] =
      map (\<lambda>j. [sv j]) [0..<Suc n]"
    by (rule map_cong [OF refl]) (use sc in blast)
  with logits_of_read_epochs [OF run, of key]
  have hist: "logits_of m key = map sv [0..<Suc n]"
    by (simp only: concat_singletons) (simp add: logits_of_def)
  then have "logits_of m key \<noteq> []" by simp
  then obtain e where e: "map_of m key = Some e"
    by (cases "map_of m key") (auto simp: logits_of_def)
  with hist have l: "logits e = map sv [0..<Suc n]" by (simp add: logits_of_def)
  have "\<forall>j \<le> n. logits e ! j = sv j"
  proof (intro allI impI)
    fix j assume "j \<le> n"
    then have "j < Suc n" by simp
    then have "map sv [0..<Suc n] ! j = sv (0 + j)" by (intro nth_map_upt) simp
    with l show "logits e ! j = sv j" by simp
  qed
  with e l show ?thesis by simp
qed

theorem multi_epoch_merge_witness:
  "read_training_dynamics [(''training_dynamics'', Dir spec_example_td)] False ''guid'' None =
     Inr [(IntId 1, \<lparr>gold = JInt 1, logits = [JVec [0.1, 0.9], JVec [0.2, 0.8]]\<rparr>),
          (IntId 2, \<lparr>gold = JInt 0, logits = [JVec [0.8, 0.2], JVec [0.7, 0.3]]\<rparr>)] \<and>
   (\<exists>e. map_of [(IntId 1, \<lparr>gold = JInt 1, logits = [JVec [0.1, 0.9 :: real], JVec [0.2, 0.8]]\<rparr>),
                 (IntId 2, \<lparr>gold = JInt 0, logits = [JVec [0.8, 0.2], JVec [0.7, 0.3]]\<rparr>)]
            (IntId 2) = Some e \<and>
        logits e = map (\<lambda>j. if j = 0 then JVec [0.8, 0.2] else JVec [0.7, 0.3]) [0..<Suc 1])"
proof -
  let ?sv = "\<lambda>j::nat. if j = 0 then JVec [0.8, 0.2 :: real] else JVec [0.7, 0.3]"
  have cnt: "count_files spec_example_td = int (Suc 1)"
    by (simp add: spec_example_td_def count_files_def isfile_def)
  have run: "read_dynamics Training [(''training_dynamics'', Dir spec_example_td)] False ''guid''
      None =
     Inr [(IntId 1, \<lparr>gold = JInt 1, logits = [JVec [0.1, 0.9], JVec [0.2, 0.8]]\<rparr>),
          (IntId 2, \<lparr>gold = JInt 0, logits = [JVec [0.8, 0.2], JVec [0.7, 0.3]]\<rparr>)]"
    by (simp add: spec_example_td_def eval_simps)
  have once: "\<forall>j \<le> 1. \<exists>r. rows_with_key False ''guid'' (IntId 2) (file_rows spec_example_td j) = [r] \<and>
                 map_of r (logits_column (int j)) = Some (?sv j)"
    by (simp add: spec_example_td_def rows_with_key_def file_rows_def eval_simps
        le_Suc_eq all_conj_distrib)
  have tr: "map_of [(''training_dynamics'', Dir spec_example_td)] (subdir Training)
      = Some (Dir spec_example_td)" by simp
  from multi_epoch_merge [OF tr cnt run once] run
  show ?thesis by (simp add: read_training_dynamics_def)
qed

text \<open>
  The claim as stated asks only that the instance be present in every epoch file. An
  instance with two records in the one file of a directory is present in it, and its
  history has length 2, not 1.
\<close>

theorem multi_epoch_merge_counterexample:
  "count_files duplicate_td = 1 \<and>
   rows_with_key False ''guid'' (IntId 1) (file_rows duplicate_td 0) \<noteq> [] \<and>
   read_training_dynamics [(''training_dynamics'', Dir duplicate_td)] False ''guid'' None =
     Inr [(IntId 1, \<lparr>gold = JInt 1, logits = [JVec [0.1, 0.9], JVec [0.3, 0.7]]\<rparr>)] \<and>
   read_eval_dynamics [(''eval_dynamics'', Dir duplicate_td)] False ''guid'' None =
     Inr [(IntId 1, \<lparr>gold = JInt 1, logits = [JVec [0.1, 0.9], JVec [0.3, 0.7]]\<rparr>)]"
  by (simp add: read_training_dynamics_def read_eval_dynamics_def duplicate_td_def
      rows_with_key_def file_rows_def eval_simps)

lemma row_key_strip:
  assumes "row_key True f r = Inr key"
  shows "\<exists>s. map_of r f = Some (JStr s) \<and> key = StrId (butlast s)"
proof -
  from assms obtain v where v: "map_of r f = Some v"
    by (auto simp: row_key_def getitem_def split: option.splits)
  with assms show ?thesis
    by (cases v) (auto simp: row_key_def getitem_def)
qed

text \<open>
  Claim C8 (identifier truncation). When either reader is called with the strip option
  and returns a mapping, every record of every file it read has a string in its
  identifier field, and has been merged under that string without its last character:
  the mapping has an entry at this key, and the history of the entry holds the score
  vector of the record. The identifier \<^verbatim>\<open>"abc1"\<close> is merged under \<^verbatim>\<open>"abc"\<close>.
\<close>

theorem identifier_truncation:
  assumes dir: "map_of model_dir (subdir k) = Some (Dir td)"
    and ok: "read_dynamics k model_dir True id_field burn_out = Inr m"
    and iter: "int j < num_epochs td burn_out"
    and r: "r \<in> set (file_rows td j)"
  shows "\<exists>s sv e. map_of r id_field = Some (JStr s) \<and>
           row_key True id_field r = Inr (StrId (butlast s)) \<and>
           map_of r (logits_column (int j)) = Some sv \<and>
           map_of m (StrId (butlast s)) = Some e \<and> sv \<in> set (logits e)"
proof -
  from ok read_dynamics_dir [OF dir, of True id_field burn_out]
  have run: "read_epochs td True id_field [0..<nat (num_epochs td burn_out)] [] = Inr m" by simp
  from iter have "j \<in> set [0..<nat (num_epochs td burn_out)]" by simp
  from read_epochs_record_merged [OF run this r] obtain key sv e where
    k: "row_key True id_field r = Inr key"
    and sv: "map_of r (logits_column (int j)) = Some sv"
    and e: "map_of m key = Some e" and mem: "sv \<in> set (logits e)" by blast
  from row_key_strip [OF k] obtain s where
    "map_of r id_field = Some (JStr s)" and "key = StrId (butlast s)" by blast
  with k sv e mem show ?thesis by blast
qed

theorem identifier_truncation_witness:
  "read_training_dynamics [(''training_dynamics'', Dir suffixed_ids_td)] True ''guid'' None =
     Inr [(StrId ''abc'', \<lparr>gold = JInt 1, logits = [JVec [0.1, 0.9]]\<rparr>)] \<and>
   (\<exists>s. map_of [(''guid'', JStr ''abc1''), (''logits_epoch_0'', JVec [0.1, 0.9 :: real]),
                 (''gold'', JInt 1)] ''guid'' = Some (JStr s) \<and>
        row_key True ''guid'' [(''guid'', JStr ''abc1''), (''logits_epoch_0'', JVec [0.1, 0.9 :: real]),
                 (''gold'', JInt 1)] = Inr (StrId (butlast s)) \<and> butlast s = ''abc'')"
proof -
  let ?r = "[(''guid'', JStr ''abc1''), (''logits_epoch_0'', JVec [0.1, 0.9 :: real]),
            (''gold'', JInt 1)]"
  have run: "read_dynamics Training [(''training_dynamics'', Dir suffixed_ids_td)] True ''guid''
      None = Inr [(StrId ''abc'', \<lparr>gold = JInt 1, logits = [JVec [0.1, 0.9]]\<rparr>)]"
    by (simp add: suffixed_ids_td_def eval_simps)
  have iter: "int 0 < num_epochs suffixed_ids_td None"
    by (simp add: suffixed_ids_td_def num_epochs_def count_files_def isfile_def)
  have r: "?r \<in> set (file_rows suffixed_ids_td 0)"
    by (simp add: suffixed_ids_td_def file_rows_def name_simps)
  have tr: "map_of [(''training_dynamics'', Dir suffixed_ids_td)] (subdir Training)
      = Some (Dir suffixed_ids_td)" by simp
  from identifier_truncation [OF tr run iter r] obtain s where
    a: "map_of ?r ''guid'' = Some (JStr s)"
    and b: "row_key True ''guid'' ?r = Inr (StrId (butlast s))"
    by blast
  from a have "s = ''abc1''" by simp
  then have c: "butlast s = ''abc''" by simp
  from a b c have "\<exists>s. map_of ?r ''guid'' = Some (JStr s) \<and>
      row_key True ''guid'' ?r = Inr (StrId (butlast s)) \<and> butlast s = ''abc''" by blast
  with run show ?thesis by (simp only: read_training_dynamics_def) 
qed

subsection \<open>Gold labels of later records\<close>

lemma map_of_overwrite_later_gold:
  "map_of (overwrite_later_gold g td) name =
     map_option (\<lambda>nd. if name = epoch_file_name 0 then nd
                      else (case nd of
                              File rows \<Rightarrow> File (map (AList.update ''gold'' g) rows)
                            | Dir d \<Rightarrow> Dir d)) (map_of td name)"
  by (induction td) (auto simp: overwrite_later_gold_def)

lemma names_overwrite_later_gold: "map fst (overwrite_later_gold g td) = map fst td"
  by (induction td) (auto simp: overwrite_later_gold_def)

lemma isfile_overwrite_later_gold: "isfile (overwrite_later_gold g td) name = isfile td name"
  by (auto simp: isfile_def map_of_overwrite_later_gold split: option.splits node.splits)

lemma num_epochs_overwrite_later_gold:
  "num_epochs (overwrite_later_gold g td) bo = num_epochs td bo"
proof -
  have "isfile (overwrite_later_gold g td) = isfile td"
    by (rule ext) (rule isfile_overwrite_later_gold)
  then have "count_files (overwrite_later_gold g td) = count_files td"
    by (simp add: count_files_def names_overwrite_later_gold)
  then show ?thesis by (cases bo) (simp_all add: num_epochs_def)
qed

lemma logits_column_not_gold: "logits_column i \<noteq> ''gold''"
  by (simp add: logits_column_def)

lemma merge_record_later_gold:
  assumes "n \<noteq> 0" and "f \<noteq> ''gold''"
  shows "merge_record n s f dyn (AList.update ''gold'' g r) = merge_record n s f dyn r"
proof -
  have k: "row_key s f (AList.update ''gold'' g r) = row_key s f r"
    using assms(2) by (simp add: row_key_def getitem_def update_conv')
  have l: "getitem (AList.update ''gold'' g r) (logits_column (int n)) =
      getitem r (logits_column (int n))"
    using logits_column_not_gold [of "int n"] by (simp add: getitem_def update_conv')
  show ?thesis
  proof (cases "row_key s f r")
    case (Inl e)
    then show ?thesis by (simp add: merge_record_def k)
  next
    case (Inr guid)
    with assms(1) show ?thesis
      by (cases "map_of dyn guid") (simp_all add: merge_record_def k l)
  qed
qed

lemma read_lines_later_gold:
  assumes "n \<noteq> 0" and "f \<noteq> ''gold''"
  shows "read_lines n s f (map (AList.update ''gold'' g) rows) dyn = read_lines n s f rows dyn"
proof (induction rows arbitrary: dyn)
  case Nil
  show ?case by simp
next
  case (Cons r rows)
  show ?case
    by (cases "merge_record n s f dyn r")
      (simp_all add: merge_record_later_gold [OF assms] Cons.IH)
qed

lemma read_epochs_later_gold:
  assumes "f \<noteq> ''gold''"
  shows "read_epochs (overwrite_later_gold g td) s f ns dyn = read_epochs td s f ns dyn"
proof (induction ns arbitrary: dyn)
  case Nil
  show ?case by simp
next
  case (Cons n ns)
  show ?case
  proof (cases "n = 0")
    case True
    then show ?thesis
      by (simp add: map_of_overwrite_later_gold Cons.IH
          split: option.splits node.splits sum.splits)
  next
    case False
    then have "epoch_file_name (int n) \<noteq> epoch_file_name 0"
      using epoch_file_name_inj [of n 0] by auto
    then show ?thesis
      using False
      by (simp add: map_of_overwrite_later_gold Cons.IH read_lines_later_gold [OF _ assms]
          split: option.splits node.splits sum.splits)
  qed
qed

text \<open>
  Claim C9 (the gold label is taken from the first encounter only). In a mapping returned
  by either reader, the gold label of a key is the gold field of the first record with
  that key in the file of epoch 0. The gold fields of the files of later epochs are not
  looked at: setting all of them to any value changes neither the mapping nor whether
  the reader fails (the identifier field being another field than the gold one).
\<close>

theorem gold_from_first_record:
  assumes dir: "map_of model_dir (subdir k) = Some (Dir td)"
  shows "(\<forall>m key e. read_dynamics k model_dir strip_last id_field burn_out = Inr m \<longrightarrow>
            map_of m key = Some e \<longrightarrow>
            (\<exists>r rest. rows_with_key strip_last id_field key (file_rows td 0) = r # rest \<and>
               map_of r ''gold'' = Some (gold e))) \<and>
         (id_field \<noteq> ''gold'' \<longrightarrow>
            (\<forall>g. read_dynamics k
                   (AList.update (subdir k) (Dir (overwrite_later_gold g td)) model_dir)
                   strip_last id_field burn_out =
                 read_dynamics k model_dir strip_last id_field burn_out))"
proof -
  let ?N = "nat (num_epochs td burn_out)"
  have rd: "read_dynamics k model_dir strip_last id_field burn_out =
      read_epochs td strip_last id_field [0..<?N] []"
    using dir by (rule read_dynamics_dir)
  have c1: "\<forall>m key e. read_dynamics k model_dir strip_last id_field burn_out = Inr m \<longrightarrow>
            map_of m key = Some e \<longrightarrow>
            (\<exists>r rest. rows_with_key strip_last id_field key (file_rows td 0) = r # rest \<and>
               map_of r ''gold'' = Some (gold e))"
    using first_gold_read_all [of td strip_last id_field ?N] rd by simp
  have c2: "id_field \<noteq> ''gold'' \<longrightarrow>
            (\<forall>g. read_dynamics k
                   (AList.update (subdir k) (Dir (overwrite_later_gold g td)) model_dir)
                   strip_last id_field burn_out =
                 read_dynamics k model_dir strip_last id_field burn_out)"
  proof (intro impI allI)
    fix g assume f: "id_field \<noteq> ''gold''"
    have "map_of (AList.update (subdir k) (Dir (overwrite_later_gold g td)) model_dir) (subdir k)
        = Some (Dir (overwrite_later_gold g td))"
      by (simp add: update_conv')
    from read_dynamics_dir [OF this, of strip_last id_field burn_out]
    show "read_dynamics k (AList.update (subdir k) (Dir (overwrite_later_gold g td)) model_dir)
        strip_last id_field burn_out = read_dynamics k model_dir strip_last id_field burn_out"
      by (simp add: rd num_epochs_overwrite_later_gold read_epochs_later_gold [OF f])
  qed
  show ?thesis by (rule conjI [OF c1 c2])
qed

theorem gold_from_first_record_witness:
  "read_training_dynamics [(''training_dynamics'', Dir gold_changes_td)] False ''guid'' None =
     Inr [(IntId 1, \<lparr>gold = JInt 1, logits = [JVec [0.1, 0.9], JVec [0.2, 0.8]]\<rparr>)] \<and>
   (\<exists>r rest. rows_with_key False ''guid'' (IntId 1) (file_rows gold_changes_td 0) = r # rest \<and>
      map_of r ''gold'' = Some (JInt 1)) \<and>
   read_training_dynamics
     [(''training_dynamics'', Dir (overwrite_later_gold (JInt 7) gold_changes_td))]
     False ''guid'' None =
     Inr [(IntId 1, \<lparr>gold = JInt 1, logits = [JVec [0.1, 0.9], JVec [0.2, 0.8]]\<rparr>)]"
proof -
  let ?m = "[(IntId 1, \<lparr>gold = JInt 1, logits = [JVec [0.1, 0.9 :: real], JVec [0.2, 0.8]]\<rparr>)]"
  have run: "read_dynamics Training [(''training_dynamics'', Dir gold_changes_td)] False ''guid''
      None = Inr ?m"
    by (simp add: gold_changes_td_def eval_simps)
  have tr: "map_of [(''training_dynamics'', Dir gold_changes_td)] (subdir Training)
      = Some (Dir gold_changes_td)" by simp
  note t = gold_from_first_record [OF tr, of False "''guid''" None]
  have e: "map_of ?m (IntId 1) = Some \<lparr>gold = JInt 1, logits = [JVec [0.1, 0.9], JVec [0.2, 0.8]]\<rparr>"
    by simp
  from t run e have first:
    "\<exists>r rest. rows_with_key False ''guid'' (IntId 1) (file_rows gold_changes_td 0) = r # rest \<and>
      map_of r ''gold'' = Some (gold \<lparr>gold = JInt 1, logits = [JVec [0.1, 0.9 :: real], JVec [0.2, 0.8]]\<rparr>)"
    by blast
  have "''guid'' \<noteq> ''gold''" by simp
  with t have "read_dynamics Training
      (AList.update (subdir Training) (Dir (overwrite_later_gold (JInt 7) gold_changes_td))
         [(''training_dynamics'', Dir gold_changes_td)]) False ''guid'' None =
      read_dynamics Training [(''training_dynamics'', Dir gold_changes_td)] False ''guid'' None"
    by blast
  with run have "read_dynamics Training
      [(''training_dynamics'', Dir (overwrite_later_gold (JInt 7) gold_changes_td))]
      False ''guid'' None = Inr ?m" by simp
  with run first show ?thesis by (simp add: read_training_dynamics_def)
qed

section \<open>The writers\<close>

subsection \<open>What is printed, and what is read back\<close>


lemma to_json_float_exact:
  assumes "x * 10 ^ 10 \<in> \<int>"
  shows "to_json_float x = x"
proof -
  from assms obtain n :: int where n: "x * 10 ^ 10 = of_int n" by (auto elim: Ints_cases)
  then have "round (x * 10 ^ 10) = n" by simp
  then have "to_json_float x = of_int n / 10 ^ 10" by (simp add: to_json_float_def)
  also have "\<dots> = x" using n by (simp add: field_simps)
  finally show ?thesis .
qed


text \<open>
  What \<^verbatim>\<open>to_json\<close> has printed it prints again unchanged: the records of a file that the
  writers wrote are as \<^verbatim>\<open>to_json\<close> prints them.
\<close>

lemma to_json_float_idem: "to_json_float (to_json_float x) = to_json_float x"
  by (rule to_json_float_exact) (simp add: to_json_float_def)

lemma to_json_value_idem: "to_json_value (to_json_value v) = to_json_value v"
  by (cases v) (simp_all add: to_json_float_idem)

lemma to_json_idem: "to_json (to_json df) = to_json df"
  by (simp add: to_json_def comp_def case_prod_beta to_json_value_idem)












section \<open>Writing, then reading\<close>












end
